theory Spec2Isabelle
  imports Complex_Main "HOL-Library.Multiset" "HOL-Library.Char_ord" "HOL-Library.List_Lexorder"
begin

section \<open>Touch resolution (KeyboardView)\<close>

text \<open>
  The keyboard component of \<^verbatim>\<open>src/unnamed/part_002\<close> (KeyboardView.tsx).
  JavaScript numbers are modelled as mathematical reals: every statement below is about
  finite coordinates and exact arithmetic, without rounding, NaN or infinities.
  Strings are lists of 8-bit characters.
\<close>

subsection \<open>getProbability\<close>

text \<open>
  \<^verbatim>\<open>hitboxProbabilities\<close> is imported from a JSON file that is not part of the sources;
  it is a parameter of the model: \<open>tbl prev\<close> is the inner record of \<open>prev\<close>, if any, and
  \<open>Some p\<close> in the inner record is an entry whose value is the number \<open>p\<close>.
\<close>

type_synonym prob_table = "string \<Rightarrow> (string \<Rightarrow> real option) option"

definition DEFAULT_PROBABILITY :: real where
  "DEFAULT_PROBABILITY = 0.5"

definition BASE_SCALE :: real where
  "BASE_SCALE = 1.0"

definition SCALE_MULTIPLIER :: real where
  "SCALE_MULTIPLIER = 0.6"

definition lower_char :: "char \<Rightarrow> char" where
  \<comment> \<open>\<^verbatim>\<open>toLowerCase\<close> on one character: \<^verbatim>\<open>A\<close>..\<^verbatim>\<open>Z\<close> go to \<^verbatim>\<open>a\<close>..\<^verbatim>\<open>z\<close>. No other 8-bit character
      is mapped into \<^verbatim>\<open>a\<close>..\<^verbatim>\<open>z\<close>, which is all the test below looks at; they are left as they are.\<close>
  "lower_char c =
     (case map_of (zip ''ABCDEFGHIJKLMNOPQRSTUVWXYZ'' ''abcdefghijklmnopqrstuvwxyz'') c of
        Some l \<Rightarrow> l
      | None \<Rightarrow> c)"

definition toLowerCase :: "string \<Rightarrow> string" where
  "toLowerCase s = map lower_char s"

definition is_az :: "string \<Rightarrow> bool" where
  \<comment> \<open>\<^verbatim>\<open>/^[a-z]$/.test(s)\<close>: exactly one character, between \<^verbatim>\<open>a\<close> and \<^verbatim>\<open>z\<close>.\<close>
  "is_az s = (case s of [c] \<Rightarrow> c \<in> set ''abcdefghijklmnopqrstuvwxyz'' | _ \<Rightarrow> False)"

definition getProbability :: "prob_table \<Rightarrow> string \<Rightarrow> string \<Rightarrow> real" where
  "getProbability tbl prevKey0 targetKey0 =
     (let prevKey = toLowerCase prevKey0;
          targetKey = toLowerCase targetKey0
      in if \<not> is_az prevKey \<or> \<not> is_az targetKey then DEFAULT_PROBABILITY
         else (case tbl prevKey of
                 None \<Rightarrow> DEFAULT_PROBABILITY
               | Some probabilitiesForPrev \<Rightarrow>
                   (case probabilitiesForPrev targetKey of
                      Some p \<Rightarrow> p
                    | None \<Rightarrow> DEFAULT_PROBABILITY)))"

text \<open>
  The specification's \<open>probability(prev, cand)\<close>, in its words: the table lookup when both
  characters are lowercase \<^verbatim>\<open>a\<close>..\<^verbatim>\<open>z\<close> and an entry exists, the default \<open>0.5\<close> otherwise.
\<close>

definition specProbability :: "prob_table \<Rightarrow> string \<Rightarrow> string \<Rightarrow> real" where
  "specProbability tbl prev cand =
     (if is_az prev \<and> is_az cand
      then (case tbl prev of
              None \<Rightarrow> 0.5
            | Some inner \<Rightarrow> (case inner cand of None \<Rightarrow> 0.5 | Some p \<Rightarrow> p))
      else 0.5)"

text \<open>
  The arguments \<^verbatim>\<open>getProbability\<close> is called with hold no capital letter: the previous key is
  \<^verbatim>\<open>lastLetterPressed.current\<close>, which the component sets to the letter of a key of \<^verbatim>\<open>keyLayout\<close>,
  to a lower-cased character that passed \<^verbatim>\<open>/^[a-z]$/\<close>, or to \<^verbatim>\<open>null\<close>, and the target is the
  letter of a key.
\<close>

definition noCapital :: "string \<Rightarrow> bool" where
  "noCapital s \<longleftrightarrow> list_all (\<lambda>c. c \<notin> set ''ABCDEFGHIJKLMNOPQRSTUVWXYZ'') s"

subsection \<open>Key geometry and the component's state\<close>

record KeyPosition =
  kx :: real
  ky :: real
  width :: real
  height :: real
  letter :: string
  row :: nat
  col :: nat

record candidate =
  keyPos :: KeyPosition
  distance :: real
  score :: real
  touchInside :: bool

text \<open>
  What the handler reports through \<^verbatim>\<open>logger.log\<close> (or \<^verbatim>\<open>console.log\<close> when no logger was
  passed): \<open>ChangedOutcome currentInput changedFrom changedTo\<close> and
  \<open>Typed letter currentInput\<close>.
\<close>

datatype kb_event =
  ChangedOutcome string string string
| Typed string string

text \<open>
  Props and state of the component that the tap handler reads or writes.
  \<open>lastLetterPressed = None\<close> is \<^verbatim>\<open>null\<close>; \<open>logged\<close> collects the reports in call order.
\<close>

record keyboard =
  dynamicHitboxEnabled :: bool
  gridWidth :: real
  gridHeight :: real
  keyPositions :: "KeyPosition list"
  lastLetterPressed :: "string option"
  message :: string
  hitboxAffected :: bool
  logged :: "kb_event list"

definition keyLayout :: "string list list" where
  "keyLayout =
     [[''q'', ''w'', ''e'', ''r'', ''t'', ''y'', ''u'', ''i'', ''o'', ''p''],
      [''a'', ''s'', ''d'', ''f'', ''g'', ''h'', ''j'', ''k'', ''l''],
      [''z'', ''x'', ''c'', ''v'', ''b'', ''n'', ''m'']]"

definition layoutRow :: "real \<Rightarrow> real \<Rightarrow> nat \<Rightarrow> string list \<Rightarrow> KeyPosition list" where
  \<comment> \<open>The inner \<^verbatim>\<open>row.forEach\<close> of \<^verbatim>\<open>onGridLayout\<close>; \<^verbatim>\<open>currentX\<close> after \<open>colIndex\<close> additions of
      \<^verbatim>\<open>keyWidth\<close> is \<open>colIndex * keyWidth\<close>.\<close>
  "layoutRow w rowHeight rowIndex r =
     (let keyWidth = w / real (length r)
      in map (\<lambda>colIndex.
           \<lparr>kx = real colIndex * keyWidth, ky = real rowIndex * rowHeight,
            width = keyWidth, height = rowHeight,
            letter = r ! colIndex, row = rowIndex, col = colIndex\<rparr>) [0..<length r])"

definition computePositions :: "real \<Rightarrow> real \<Rightarrow> KeyPosition list" where
  "computePositions w h =
     (let rowHeight = h / real (length keyLayout)
      in concat (map (\<lambda>rowIndex. layoutRow w rowHeight rowIndex (keyLayout ! rowIndex))
                     [0..<length keyLayout]))"

definition truthy :: "string option \<Rightarrow> bool" where
  \<comment> \<open>JavaScript truthiness of a \<^verbatim>\<open>string | null\<close>: \<^verbatim>\<open>null\<close> and the empty string are falsy.\<close>
  "truthy s = (case s of None \<Rightarrow> False | Some t \<Rightarrow> t \<noteq> [])"

subsection \<open>The tap handler\<close>

definition centerDistance :: "real \<Rightarrow> real \<Rightarrow> KeyPosition \<Rightarrow> real" where
  "centerDistance locationX locationY kp =
     (let centerX = kx kp + width kp / 2;
          centerY = ky kp + height kp / 2;
          dx = locationX - centerX;
          dy = locationY - centerY
      in sqrt (dx * dx + dy * dy))"

definition inside :: "real \<Rightarrow> real \<Rightarrow> KeyPosition \<Rightarrow> bool" where
  "inside locationX locationY kp \<longleftrightarrow>
     locationX \<ge> kx kp \<and> locationX \<le> kx kp + width kp \<and>
     locationY \<ge> ky kp \<and> locationY \<le> ky kp + height kp"

definition normalizedDistance :: "real \<Rightarrow> real \<Rightarrow> KeyPosition \<Rightarrow> real" where
  \<comment> \<open>Only meaningful for \<open>width kp + height kp \<noteq> 0\<close>: JavaScript divides by zero to an
      infinity or NaN, HOL to \<open>0\<close>. \<^verbatim>\<open>onGridLayout\<close> never stores such a key.\<close>
  "normalizedDistance locationX locationY kp =
     (let avgKeyDimension = (width kp + height kp) / 2
      in centerDistance locationX locationY kp / avgKeyDimension)"

definition keyScore :: "prob_table \<Rightarrow> bool \<Rightarrow> string option \<Rightarrow> real \<Rightarrow> real \<Rightarrow> KeyPosition \<Rightarrow> real" where
  "keyScore tbl dyn lastLetter locationX locationY kp =
     (let nd = normalizedDistance locationX locationY kp;
          distancePenalty = - exp nd
      in if dyn then
           (case lastLetter of
              Some l \<Rightarrow>
                if l \<noteq> [] then
                  (let probability = getProbability tbl l (letter kp);
                       distanceMultiplier = exp (- (nd ^ 2) / 0.25)
                   in probability * distanceMultiplier)
                else distancePenalty
            | None \<Rightarrow> distancePenalty)
         else distancePenalty)"

definition mkCandidate :: "prob_table \<Rightarrow> bool \<Rightarrow> string option \<Rightarrow> real \<Rightarrow> real \<Rightarrow> KeyPosition \<Rightarrow> candidate" where
  \<comment> \<open>One round of \<^verbatim>\<open>keyPositions.forEach\<close>.\<close>
  "mkCandidate tbl dyn lastLetter locationX locationY kp =
     \<lparr>keyPos = kp,
      distance = centerDistance locationX locationY kp,
      score = keyScore tbl dyn lastLetter locationX locationY kp,
      touchInside = inside locationX locationY kp\<rparr>"

definition candidatesOf :: "prob_table \<Rightarrow> keyboard \<Rightarrow> real \<Rightarrow> real \<Rightarrow> candidate list" where
  "candidatesOf tbl st locationX locationY =
     map (mkCandidate tbl (dynamicHitboxEnabled st) (lastLetterPressed st) locationX locationY)
         (keyPositions st)"

fun closestDistance :: "real option \<Rightarrow> candidate list \<Rightarrow> real option" where
  \<comment> \<open>\<^verbatim>\<open>closestDistance = Math.min(closestDistance, distance)\<close> along the loop; \<open>None\<close> is the
      initial \<^verbatim>\<open>Infinity\<close>.\<close>
  "closestDistance acc [] = acc"
| "closestDistance acc (c # cs) =
     closestDistance (case acc of None \<Rightarrow> Some (distance c) | Some d \<Rightarrow> Some (min d (distance c))) cs"

definition MAX_DISTANCE_THRESHOLD_FACTOR :: real where
  "MAX_DISTANCE_THRESHOLD_FACTOR = 0.5"

text \<open>
  \<^verbatim>\<open>Array.prototype.sort\<close> with a comparator: the sort is stable, and the comparators used
  here are differences of one numeric field, which order the elements consistently, so the
  result is the one stable arrangement in which \<open>cmp a b \<le> 0\<close> for \<open>a\<close> before \<open>b\<close>.
  Insertion from the right computes it.
\<close>

fun insertBy :: "('a \<Rightarrow> 'a \<Rightarrow> real) \<Rightarrow> 'a \<Rightarrow> 'a list \<Rightarrow> 'a list" where
  "insertBy cmp a [] = [a]"
| "insertBy cmp a (b # bs) = (if cmp a b \<le> 0 then a # b # bs else b # insertBy cmp a bs)"

definition sortBy :: "('a \<Rightarrow> 'a \<Rightarrow> real) \<Rightarrow> 'a list \<Rightarrow> 'a list" where
  "sortBy cmp xs = foldr (insertBy cmp) xs []"

definition byScore :: "candidate \<Rightarrow> candidate \<Rightarrow> real" where
  "byScore a b = score b - score a"

definition byDistance :: "candidate \<Rightarrow> candidate \<Rightarrow> real" where
  "byDistance a b = distance a - distance b"

definition probabilityDidChangeOutcome :: "keyboard \<Rightarrow> candidate list \<Rightarrow> bool" where
  \<comment> \<open>The argument is the candidate array after the sort by score.\<close>
  "probabilityDidChangeOutcome st candidates =
     (if length candidates > 1 \<and> dynamicHitboxEnabled st \<and> truthy (lastLetterPressed st) then
        (case (candidates, sortBy byDistance candidates) of
           (best # _, nearest # _) \<Rightarrow>
             if letter (keyPos best) \<noteq> letter (keyPos nearest) then
               (case find touchInside candidates of
                  None \<Rightarrow> True
                | Some touchedCandidate \<Rightarrow> letter (keyPos touchedCandidate) \<noteq> letter (keyPos best))
             else False
         | _ \<Rightarrow> False)
      else False)"

definition resolve :: "prob_table \<Rightarrow> keyboard \<Rightarrow> real \<Rightarrow> real \<Rightarrow> (candidate list) option" where
  \<comment> \<open>\<^verbatim>\<open>onResponderRelease\<close> up to the sort by score: \<open>None\<close> on each early \<^verbatim>\<open>return\<close>,
      otherwise the sorted candidates.\<close>
  "resolve tbl st locationX locationY =
     (if keyPositions st = [] then None
      else
        (let candidates = candidatesOf tbl st locationX locationY;
             maxDistanceThreshold = min (gridWidth st) (gridHeight st) * MAX_DISTANCE_THRESHOLD_FACTOR
         in case closestDistance None candidates of
              None \<Rightarrow> None
            | Some d \<Rightarrow>
                if d > maxDistanceThreshold then None
                else if candidates = [] then None
                else Some (sortBy byScore candidates)))"

definition updateKeyScales :: "prob_table \<Rightarrow> keyboard \<Rightarrow> string \<Rightarrow> KeyPosition list \<Rightarrow> keyboard" where
  \<comment> \<open>Only the write to \<^verbatim>\<open>hitboxAffected\<close>; the animation values are not part of the model.\<close>
  "updateKeyScales tbl st pressedLetter currentKeyPositions =
     (if currentKeyPositions = [] \<or> \<not> is_az pressedLetter then st\<lparr>hitboxAffected := False\<rparr>
      else st\<lparr>hitboxAffected :=
                list_ex (\<lambda>kp. dynamicHitboxEnabled st \<and>
                     \<bar>(BASE_SCALE + (getProbability tbl pressedLetter (letter kp) - DEFAULT_PROBABILITY)
                          * SCALE_MULTIPLIER) - BASE_SCALE\<bar> > 0.01)
                   currentKeyPositions\<rparr>)"

definition onGridLayout :: "prob_table \<Rightarrow> keyboard \<Rightarrow> real \<Rightarrow> real \<Rightarrow> keyboard" where
  "onGridLayout tbl st w h =
     (if w = 0 \<or> h = 0 then st
      else
        (let computedPositions = computePositions w h;
             st1 = st\<lparr>gridWidth := w, gridHeight := h, keyPositions := computedPositions\<rparr>
         in case lastLetterPressed st of
              Some l \<Rightarrow>
                if l \<noteq> [] \<and> dynamicHitboxEnabled st
                then updateKeyScales tbl st1 l computedPositions else st1
            | None \<Rightarrow> st1))"

definition handleKeyPress :: "prob_table \<Rightarrow> keyboard \<Rightarrow> KeyPosition \<Rightarrow> keyboard" where
  "handleKeyPress tbl st kp =
     (let st1 = st\<lparr>message := message st @ letter kp\<rparr>;
          st2 = (if dynamicHitboxEnabled st
                 then updateKeyScales tbl st1 (letter kp) (keyPositions st) else st1)
      in st2\<lparr>lastLetterPressed := Some (letter kp)\<rparr>)"

definition onResponderRelease :: "prob_table \<Rightarrow> keyboard \<Rightarrow> real \<Rightarrow> real \<Rightarrow> keyboard" where
  "onResponderRelease tbl st locationX locationY =
     (case resolve tbl st locationX locationY of
        None \<Rightarrow> st
      | Some [] \<Rightarrow> st
      | Some (best # rest) \<Rightarrow>
          (let changed = probabilityDidChangeOutcome st (best # rest);
               st1 = (case sortBy byDistance (best # rest) of
                        nearest # _ \<Rightarrow>
                          if changed
                          then st\<lparr>logged := logged st @
                                 [ChangedOutcome (message st) (letter (keyPos nearest)) (letter (keyPos best))]\<rparr>
                          else st
                      | [] \<Rightarrow> st);
               st2 = st1\<lparr>hitboxAffected := changed\<rparr>;
               st3 = st2\<lparr>logged := logged st2 @ [Typed (letter (keyPos best)) (message st)]\<rparr>
           in handleKeyPress tbl st3 (keyPos best)))"

text \<open>
  The engine's result for a tap: the chosen key, and the outcome-changed flag, which is the
  value the handler passes to \<^verbatim>\<open>setHitboxAffected\<close> and reports as \<^verbatim>\<open>changed_outcome\<close>. (In
  adaptive mode \<^verbatim>\<open>handleKeyPress\<close>, called last, sets \<^verbatim>\<open>hitboxAffected\<close> once more through
  \<^verbatim>\<open>updateKeyScales\<close>.)
\<close>

definition chosen :: "prob_table \<Rightarrow> keyboard \<Rightarrow> real \<Rightarrow> real \<Rightarrow> KeyPosition option" where
  "chosen tbl st locationX locationY =
     (case resolve tbl st locationX locationY of
        Some (best # _) \<Rightarrow> Some (keyPos best)
      | _ \<Rightarrow> None)"

definition outcomeChanged :: "prob_table \<Rightarrow> keyboard \<Rightarrow> real \<Rightarrow> real \<Rightarrow> bool option" where
  "outcomeChanged tbl st locationX locationY =
     (case resolve tbl st locationX locationY of
        Some (best # rest) \<Rightarrow> Some (probabilityDidChangeOutcome st (best # rest))
      | _ \<Rightarrow> None)"

definition nearest :: "prob_table \<Rightarrow> keyboard \<Rightarrow> real \<Rightarrow> real \<Rightarrow> KeyPosition option" where
  \<comment> \<open>\<^verbatim>\<open>candidatesByDistance[0].keyPos\<close>: the head of the candidates, sorted by score, sorted
      again by distance.\<close>
  "nearest tbl st locationX locationY =
     (case resolve tbl st locationX locationY of
        Some (best # rest) \<Rightarrow>
          (case sortBy byDistance (best # rest) of
             n # _ \<Rightarrow> Some (keyPos n)
           | [] \<Rightarrow> None)
      | _ \<Rightarrow> None)"

abbreviation scoreOf :: "prob_table \<Rightarrow> keyboard \<Rightarrow> real \<Rightarrow> real \<Rightarrow> KeyPosition \<Rightarrow> real" where
  "scoreOf tbl st locationX locationY kp \<equiv>
     keyScore tbl (dynamicHitboxEnabled st) (lastLetterPressed st) locationX locationY kp"

definition measurable :: "keyboard \<Rightarrow> bool" where
  \<comment> \<open>No key has a zero average dimension, so that every normalized distance is a number.\<close>
  "measurable st \<longleftrightarrow> list_all (\<lambda>kp. width kp + height kp \<noteq> 0) (keyPositions st)"

definition accepted :: "keyboard \<Rightarrow> real \<Rightarrow> real \<Rightarrow> bool" where
  \<comment> \<open>The tap passes both early returns of \<^verbatim>\<open>onResponderRelease\<close>.\<close>
  "accepted st locationX locationY \<longleftrightarrow>
     keyPositions st \<noteq> [] \<and>
     \<not> Min (centerDistance locationX locationY ` set (keyPositions st))
         > 0.5 * min (gridWidth st) (gridHeight st)"

subsection \<open>A two-key board\<close>

text \<open>
  The scenario of the specification: key \<^verbatim>\<open>a\<close> centred at \<open>(10, 10)\<close> and key \<^verbatim>\<open>s\<close> centred at
  \<open>(30, 10)\<close>, both \<open>20 \<times> 20\<close>, on a \<open>40 \<times> 20\<close> grid; the last letter is \<^verbatim>\<open>a\<close>, the table
  gives \<open>0.9\<close> to \<^verbatim>\<open>s\<close> after \<^verbatim>\<open>a\<close> and \<open>0.05\<close> to \<^verbatim>\<open>a\<close> after \<^verbatim>\<open>a\<close>.
\<close>

definition exampleTable :: prob_table where
  "exampleTable prev =
     (if prev = ''a''
      then Some (\<lambda>cand. if cand = ''s'' then Some 0.9 else if cand = ''a'' then Some 0.05 else None)
      else None)"

definition zeroTable :: prob_table where
  "zeroTable prev = Some (\<lambda>cand. Some 0)"

definition keyA :: KeyPosition where
  "keyA = \<lparr>kx = 0, ky = 0, width = 20, height = 20, letter = ''a'', row = 0, col = 0\<rparr>"

definition keyS :: KeyPosition where
  "keyS = \<lparr>kx = 20, ky = 0, width = 20, height = 20, letter = ''s'', row = 0, col = 1\<rparr>"

definition exampleBoard :: keyboard where
  "exampleBoard =
     \<lparr>dynamicHitboxEnabled = True, gridWidth = 40, gridHeight = 20,
      keyPositions = [keyA, keyS], lastLetterPressed = Some ''a'',
      message = ''a'', hitboxAffected = False, logged = []\<rparr>"

text \<open>
  The component as first rendered, and the board after \<^verbatim>\<open>onGridLayout\<close> has measured a
  grid of \<open>630 \<times> 90\<close>, with the adaptive mode off; \<open>wideA\<close> and \<open>wideZ\<close> are its keys
  \<^verbatim>\<open>a\<close> and \<^verbatim>\<open>z\<close>.
\<close>

definition initialKeyboard :: "bool \<Rightarrow> keyboard" where
  "initialKeyboard dyn =
     \<lparr>dynamicHitboxEnabled = dyn, gridWidth = 0, gridHeight = 0, keyPositions = [],
      lastLetterPressed = None, message = [], hitboxAffected = False, logged = []\<rparr>"

definition wideBoard :: keyboard where
  "wideBoard = onGridLayout zeroTable (initialKeyboard False) 630 90"

definition wideA :: KeyPosition where
  "wideA = \<lparr>kx = 0, ky = 30, width = 70, height = 30, letter = ''a'', row = 1, col = 0\<rparr>"

definition wideZ :: KeyPosition where
  "wideZ = \<lparr>kx = 0, ky = 60, width = 90, height = 30, letter = ''z'', row = 2, col = 0\<rparr>"

text \<open>The square of the normalized distance, free of square roots.\<close>

definition squaredNormalized :: "real \<Rightarrow> real \<Rightarrow> KeyPosition \<Rightarrow> real" where
  "squaredNormalized lx ly k =
     ((lx - (kx k + width k / 2))\<^sup>2 + (ly - (ky k + height k / 2))\<^sup>2) / ((width k + height k) / 2)\<^sup>2"

section \<open>The log store (Logger.ts, LoggerService.ts)\<close>

subsection \<open>Rows and the database engine\<close>

record SessionIdentifier =
  userId :: string
  sessionCode :: string

text \<open>
  A row of the table \<^verbatim>\<open>logs\<close>. The columns \<^verbatim>\<open>id\<close> and \<^verbatim>\<open>message\<close> are the fields \<open>entryId\<close> and
  \<open>entryMessage\<close>; \<open>data\<close> is the JSON text. Timestamps are the ISO strings the code stores,
  compared as SQLite compares text: byte by byte, a proper prefix first.
\<close>

record LogEntry = SessionIdentifier +
  entryId :: nat
  timestamp :: string
  entryMessage :: string
  data :: string

text \<open>
  The errors of the engine, by the patterns the code looks for in their messages:
  \<open>ClosedResource\<close> for a message with \<^verbatim>\<open>closed resource\<close> or \<^verbatim>\<open>database is closed\<close>,
  \<open>NoSuchTable\<close> for \<^verbatim>\<open>no such table: logs\<close>, \<open>QueryFailed\<close> for \<^verbatim>\<open>Query failed\<close>, and
  \<open>OtherFailure\<close> for a message with none of them.
\<close>

datatype db_error = ClosedResource | NoSuchTable | QueryFailed | OtherFailure

text \<open>
  The database file and the engine, as far as the code observes them (expo-sqlite is not part
  of the sources). \<open>logs\<close> is the table, \<open>None\<close> while it does not exist, its rows in insertion
  order; \<open>nextEntryId\<close> is the AUTOINCREMENT counter; \<open>openConnections\<close> are the connections
  that are usable; \<open>canOpen\<close> tells whether opening the file succeeds and \<open>fault\<close> is an error
  that every statement raises, if any. All handles use the service's one file name.
\<close>

record sqlite =
  logs :: "LogEntry list option"
  nextEntryId :: nat
  openConnections :: "nat set"
  nextConnection :: nat
  canOpen :: bool
  fault :: "db_error option"

definition storedRows :: "sqlite \<Rightarrow> LogEntry list" where
  "storedRows w = (case logs w of None \<Rightarrow> [] | Some rows \<Rightarrow> rows)"

definition inSession :: "string \<Rightarrow> string \<Rightarrow> LogEntry \<Rightarrow> bool" where
  \<comment> \<open>\<^verbatim>\<open>WHERE userId = ? AND sessionCode = ?\<close>\<close>
  "inSession uid sc r \<longleftrightarrow> userId r = uid \<and> sessionCode r = sc"

definition openDatabaseAsync :: "sqlite \<Rightarrow> db_error + (nat \<times> sqlite)" where
  "openDatabaseAsync w =
     (if canOpen w
      then Inr (nextConnection w,
                w\<lparr>openConnections := insert (nextConnection w) (openConnections w),
                  nextConnection := nextConnection w + 1\<rparr>)
      else Inl OtherFailure)"

definition closeAsync :: "sqlite \<Rightarrow> nat \<Rightarrow> db_error + sqlite" where
  "closeAsync w c =
     (if c \<in> openConnections w
      then Inr (w\<lparr>openConnections := openConnections w - {c}\<rparr>)
      else Inl ClosedResource)"

definition loseConnection :: "sqlite \<Rightarrow> nat \<Rightarrow> sqlite" where
  \<comment> \<open>The platform reclaims a connection behind the handle's back.\<close>
  "loseConnection w c = w\<lparr>openConnections := openConnections w - {c}\<rparr>"

definition statementError :: "sqlite \<Rightarrow> nat \<Rightarrow> db_error option" where
  "statementError w c = (if c \<notin> openConnections w then Some ClosedResource else fault w)"

definition execCreateTable :: "sqlite \<Rightarrow> nat \<Rightarrow> db_error + sqlite" where
  \<comment> \<open>\<^verbatim>\<open>CREATE TABLE IF NOT EXISTS logs (...)\<close>\<close>
  "execCreateTable w c =
     (case statementError w c of
        Some e \<Rightarrow> Inl e
      | None \<Rightarrow> Inr (w\<lparr>logs := Some (storedRows w)\<rparr>))"

definition runInsert :: "sqlite \<Rightarrow> nat \<Rightarrow> string \<Rightarrow> string \<Rightarrow> string \<Rightarrow> string \<Rightarrow> string \<Rightarrow> db_error + sqlite" where
  \<comment> \<open>\<^verbatim>\<open>INSERT INTO logs (timestamp, sessionCode, userId, message, data) VALUES (?, ?, ?, ?, ?)\<close>\<close>
  "runInsert w c ts sc uid msg dat =
     (case statementError w c of
        Some e \<Rightarrow> Inl e
      | None \<Rightarrow>
          (case logs w of
             None \<Rightarrow> Inl NoSuchTable
           | Some rows \<Rightarrow>
               Inr (w\<lparr>logs := Some (rows @ [\<lparr>userId = uid, sessionCode = sc, entryId = nextEntryId w,
                                              timestamp = ts, entryMessage = msg, data = dat\<rparr>]),
                         nextEntryId := nextEntryId w + 1\<rparr>)))"

definition runDelete :: "sqlite \<Rightarrow> nat \<Rightarrow> string \<Rightarrow> string \<Rightarrow> db_error + (nat \<times> sqlite)" where
  \<comment> \<open>\<^verbatim>\<open>DELETE FROM logs WHERE userId = ? AND sessionCode = ?\<close>, with the number of changes.\<close>
  "runDelete w c uid sc =
     (case statementError w c of
        Some e \<Rightarrow> Inl e
      | None \<Rightarrow>
          (case logs w of
             None \<Rightarrow> Inl NoSuchTable
           | Some rows \<Rightarrow>
               Inr (length (filter (inSession uid sc) rows),
                    w\<lparr>logs := Some (filter (\<lambda>r. \<not> inSession uid sc r) rows)\<rparr>)))"

text \<open>
  \<^verbatim>\<open>ORDER BY timestamp DESC\<close> is the engine's: the query fixes no order among rows of equal
  timestamp. The engine's sort is a parameter \<open>orderBy\<close> of the two queries, and
  \<open>sortsByTimestampDesc\<close> is what the clause asks of it.
\<close>

definition newestFirst :: "LogEntry list \<Rightarrow> bool" where
  "newestFirst rows \<longleftrightarrow> sorted_wrt (\<lambda>a b. timestamp a \<ge> timestamp b) rows"

definition sortsByTimestampDesc :: "(LogEntry list \<Rightarrow> LogEntry list) \<Rightarrow> bool" where
  "sortsByTimestampDesc orderBy \<longleftrightarrow>
     (\<forall>rows. mset (orderBy rows) = mset rows \<and> newestFirst (orderBy rows))"

definition selectAll :: "(LogEntry list \<Rightarrow> LogEntry list) \<Rightarrow> sqlite \<Rightarrow> nat \<Rightarrow> nat \<Rightarrow> db_error + LogEntry list" where
  \<comment> \<open>\<^verbatim>\<open>SELECT * FROM logs ORDER BY timestamp DESC LIMIT ?\<close>; the limit is a count.\<close>
  "selectAll orderBy w c limit =
     (case statementError w c of
        Some e \<Rightarrow> Inl e
      | None \<Rightarrow>
          (case logs w of
             None \<Rightarrow> Inl NoSuchTable
           | Some rows \<Rightarrow> Inr (take limit (orderBy rows))))"

definition selectSession :: "(LogEntry list \<Rightarrow> LogEntry list) \<Rightarrow> sqlite \<Rightarrow> nat \<Rightarrow> string \<Rightarrow> string \<Rightarrow> nat \<Rightarrow> db_error + LogEntry list" where
  \<comment> \<open>\<^verbatim>\<open>SELECT * FROM logs WHERE userId = ? AND sessionCode = ? ORDER BY timestamp DESC LIMIT ?\<close>\<close>
  "selectSession orderBy w c uid sc limit =
     (case statementError w c of
        Some e \<Rightarrow> Inl e
      | None \<Rightarrow>
          (case logs w of
             None \<Rightarrow> Inl NoSuchTable
           | Some rows \<Rightarrow> Inr (take limit (orderBy (filter (inSession uid sc) rows)))))"

subsection \<open>SQLiteLogger\<close>

record SQLiteLogger = SessionIdentifier +
  dbName :: string
  db :: "nat option"
  isInitialized :: bool

definition endsWith :: "string \<Rightarrow> string \<Rightarrow> bool" where
  "endsWith s suf \<longleftrightarrow> length suf \<le> length s \<and> drop (length s - length suf) s = suf"

definition newLogger :: "string \<Rightarrow> string \<Rightarrow> string \<Rightarrow> SQLiteLogger" where
  "newLogger uid sc name =
     \<lparr>userId = uid, sessionCode = sc,
      dbName = (if endsWith name ''.db'' then name else name @ ''.db''),
      db = None, isInitialized = False\<rparr>"

definition initialize :: "SQLiteLogger \<Rightarrow> sqlite \<Rightarrow> SQLiteLogger \<times> sqlite" where
  "initialize h w =
     (case openDatabaseAsync w of
        Inl e \<Rightarrow> (h\<lparr>isInitialized := False\<rparr>, w)
      | Inr (c, w1) \<Rightarrow>
          (let h1 = h\<lparr>db := Some c\<rparr>
           in case execCreateTable w1 c of
                Inl e \<Rightarrow> (h1\<lparr>isInitialized := False\<rparr>, w1)
              | Inr w2 \<Rightarrow> (h1\<lparr>isInitialized := True\<rparr>, w2)))"

text \<open>
  What a call of \<^verbatim>\<open>log\<close> reports on the console; the call itself returns nothing. The
  method is \<open>log_msg\<close> here, \<open>log\<close> being the logarithm.
\<close>

datatype log_report =
  Ignored
| ReconnectFailed
| Written
| ConnectionClosed
| WriteFailed db_error

definition log_msg :: "SQLiteLogger \<Rightarrow> sqlite \<Rightarrow> string \<Rightarrow> string \<Rightarrow> string \<Rightarrow> log_report \<times> SQLiteLogger \<times> sqlite" where
  \<comment> \<open>\<open>dataString\<close> is \<^verbatim>\<open>JSON.stringify(data)\<close> and \<open>now\<close> is \<^verbatim>\<open>new Date().toISOString()\<close>.\<close>
  "log_msg h w msg dataString now =
     (if \<not> isInitialized h then (Ignored, h, w)
      else
        (let (h1, w1) = (case db h of None \<Rightarrow> initialize h w | Some c \<Rightarrow> (h, w))
         in case db h1 of
              None \<Rightarrow> (ReconnectFailed, h1, w1)
            | Some c \<Rightarrow>
                if \<not> isInitialized h1 then (ReconnectFailed, h1, w1)
                else
                  (case runInsert w1 c now (sessionCode h1) (userId h1) msg dataString of
                     Inr w2 \<Rightarrow> (Written, h1, w2)
                   | Inl e \<Rightarrow>
                       if e = ClosedResource
                       then (ConnectionClosed, h1\<lparr>db := None, isInitialized := False\<rparr>, w1)
                       else (WriteFailed e, h1, w1))))"

definition getLogs :: "(LogEntry list \<Rightarrow> LogEntry list) \<Rightarrow> SQLiteLogger \<Rightarrow> sqlite \<Rightarrow> nat \<Rightarrow> LogEntry list \<times> SQLiteLogger \<times> sqlite" where
  "getLogs orderBy h w limit =
     (if \<not> isInitialized h then ([], h, w)
      else
        (let (h1, w1) = (case db h of None \<Rightarrow> initialize h w | Some c \<Rightarrow> (h, w))
         in case db h1 of
              None \<Rightarrow> ([], h1, w1)
            | Some c \<Rightarrow>
                if \<not> isInitialized h1 then ([], h1, w1)
                else
                  (case selectAll orderBy w1 c limit of
                     Inr results \<Rightarrow> (results, h1, w1)
                   | Inl e \<Rightarrow>
                       if e = ClosedResource
                       then ([], h1\<lparr>db := None, isInitialized := False\<rparr>, w1)
                       else ([], h1, w1))))"

definition close :: "SQLiteLogger \<Rightarrow> sqlite \<Rightarrow> SQLiteLogger \<times> sqlite" where
  "close h w =
     (case db h of
        None \<Rightarrow> (h, w)
      | Some c \<Rightarrow>
          (case closeAsync w c of
             Inr w1 \<Rightarrow> (h\<lparr>db := None, isInitialized := False\<rparr>, w1)
           | Inl e \<Rightarrow> (h, w)))"

subsection \<open>SQLiteLoggerService\<close>

text \<open>
  Logger instances are objects shared by reference between the map, \<^verbatim>\<open>currentLogger\<close> and the
  callers: \<open>objects\<close> is the store of the instances, and the map and \<open>currentLogger\<close> hold
  references into it.
\<close>

record loggerService =
  loggers :: "string \<rightharpoonup> nat"
  currentLogger :: "nat option"
  objects :: "nat \<rightharpoonup> SQLiteLogger"
  nextObject :: nat
  serviceDbName :: string

definition loggerKey :: "string \<Rightarrow> string \<Rightarrow> string" where
  \<comment> \<open>The template \<^verbatim>\<open>${userId}-${sessionCode}\<close>.\<close>
  "loggerKey uid sc = uid @ ''-'' @ sc"

definition openDbConnection :: "sqlite \<Rightarrow> nat option \<times> sqlite" where
  "openDbConnection w =
     (case openDatabaseAsync w of
        Inl e \<Rightarrow> (None, w)
      | Inr (c, w1) \<Rightarrow> (Some c, w1))"

definition closeQuietly :: "sqlite \<Rightarrow> nat \<Rightarrow> sqlite" where
  \<comment> \<open>\<^verbatim>\<open>await db.closeAsync().catch(...)\<close> in a \<^verbatim>\<open>finally\<close> block.\<close>
  "closeQuietly w c = (case closeAsync w c of Inr w1 \<Rightarrow> w1 | Inl e \<Rightarrow> w)"

definition createLogger :: "loggerService \<Rightarrow> sqlite \<Rightarrow> SessionIdentifier \<Rightarrow> nat option \<times> loggerService \<times> sqlite" where
  "createLogger svc w options =
     (let key = loggerKey (userId options) (sessionCode options)
      in case loggers svc key of
           Some r \<Rightarrow>
             (let svc1 = svc\<lparr>currentLogger := Some r\<rparr>
              in case objects svc r of
                   None \<Rightarrow> (Some r, svc1, w)
                 | Some h \<Rightarrow>
                     if \<not> isInitialized h
                     then (let (h1, w1) = initialize h w
                           in (Some r, svc1\<lparr>objects := (objects svc1)(r \<mapsto> h1)\<rparr>, w1))
                     else (Some r, svc1, w))
         | None \<Rightarrow>
             (let r = nextObject svc;
                  (h1, w1) = initialize (newLogger (userId options) (sessionCode options) (serviceDbName svc)) w;
                  svc1 = svc\<lparr>objects := (objects svc)(r \<mapsto> h1), nextObject := r + 1\<rparr>
              in if isInitialized h1
                 then (Some r, svc1\<lparr>loggers := (loggers svc1)(key \<mapsto> r), currentLogger := Some r\<rparr>, w1)
                 else (None, svc1, w1)))"

definition getLogsForSession :: "(LogEntry list \<Rightarrow> LogEntry list) \<Rightarrow> sqlite \<Rightarrow> SessionIdentifier \<Rightarrow> nat \<Rightarrow> LogEntry list \<times> sqlite" where
  "getLogsForSession orderBy w session limit =
     (case openDbConnection w of
        (None, w1) \<Rightarrow> ([], w1)
      | (Some c, w1) \<Rightarrow>
          (case selectSession orderBy w1 c (userId session) (sessionCode session) limit of
             Inr results \<Rightarrow> (results, closeQuietly w1 c)
           | Inl e \<Rightarrow> ([], closeQuietly w1 c)))"

definition deleteLogsForSession :: "loggerService \<Rightarrow> sqlite \<Rightarrow> SessionIdentifier \<Rightarrow> bool \<times> loggerService \<times> sqlite" where
  "deleteLogsForSession svc w session =
     (case openDbConnection w of
        (None, w1) \<Rightarrow> (False, svc, w1)
      | (Some c, w1) \<Rightarrow>
          (case runDelete w1 c (userId session) (sessionCode session) of
             Inr (changes, w2) \<Rightarrow>
               (let key = loggerKey (userId session) (sessionCode session)
                in case loggers svc key of
                     None \<Rightarrow> (True, svc, closeQuietly w2 c)
                   | Some r \<Rightarrow>
                       (let (objs, w3) =
                              (case objects svc r of
                                 None \<Rightarrow> (objects svc, w2)
                               | Some h \<Rightarrow> (let (h1, w3) = close h w2 in ((objects svc)(r \<mapsto> h1), w3)));
                            svc1 = svc\<lparr>objects := objs, loggers := (loggers svc)(key := None)\<rparr>;
                            svc2 = (if currentLogger svc1 = Some r then svc1\<lparr>currentLogger := None\<rparr> else svc1)
                        in (True, svc2, closeQuietly w3 c)))
           | Inl e \<Rightarrow>
               if e = NoSuchTable \<or> e = QueryFailed then (True, svc, closeQuietly w1 c)
               else (False, svc, closeQuietly w1 c)))"

subsection \<open>Example data\<close>

text \<open>
  Two sorts that meet \<open>sortsByTimestampDesc\<close>: \<open>stableDesc\<close> keeps rows of equal timestamp in
  the order of the table, \<open>stableDesc \<circ> rev\<close> reverses them.
\<close>

fun insertDesc :: "LogEntry \<Rightarrow> LogEntry list \<Rightarrow> LogEntry list" where
  "insertDesc r [] = [r]"
| "insertDesc r (x # xs) = (if timestamp x \<le> timestamp r then r # x # xs else x # insertDesc r xs)"

definition stableDesc :: "LogEntry list \<Rightarrow> LogEntry list" where
  "stableDesc rows = foldr insertDesc rows []"

text \<open>
  The service and the database at start; the database after a first \<^verbatim>\<open>initialize\<close>; a handle for
  \<open>(u1, s1)\<close> as \<^verbatim>\<open>initialize\<close> leaves it, and as it is once marked inactive.
\<close>

definition emptyService :: loggerService where
  "emptyService =
     \<lparr>loggers = Map.empty, currentLogger = None, objects = Map.empty, nextObject = 0,
      serviceDbName = ''appLogs.db''\<rparr>"

definition freshDatabase :: sqlite where
  "freshDatabase =
     \<lparr>logs = None, nextEntryId = 1, openConnections = {}, nextConnection = 0,
      canOpen = True, fault = None\<rparr>"

definition openedDatabase :: sqlite where
  "openedDatabase =
     \<lparr>logs = Some [], nextEntryId = 1, openConnections = {0}, nextConnection = 1,
      canOpen = True, fault = None\<rparr>"

definition activeHandle :: SQLiteLogger where
  "activeHandle =
     \<lparr>userId = ''u1'', sessionCode = ''s1'', dbName = ''appLogs.db'', db = Some 0,
      isInitialized = True\<rparr>"

definition inactiveHandle :: SQLiteLogger where
  "inactiveHandle =
     \<lparr>userId = ''u1'', sessionCode = ''s1'', dbName = ''appLogs.db'', db = None,
      isInitialized = False\<rparr>"

definition sessionOne :: SessionIdentifier where
  "sessionOne = \<lparr>userId = ''u1'', sessionCode = ''s1''\<rparr>"

text \<open>
  A table with two rows of \<open>(u1, s1)\<close> that share a timestamp and one row of \<open>(u2, s2)\<close>, and
  the same database after the rows of \<open>(u1, s1)\<close> are deleted, or after one write of the handle.
\<close>

definition rowA1 :: LogEntry where
  "rowA1 = \<lparr>userId = ''u1'', sessionCode = ''s1'', entryId = 1,
            timestamp = ''2024-01-01T10:00:00.000Z'', entryMessage = ''Typed q'', data = ''{}''\<rparr>"

definition rowB :: LogEntry where
  "rowB = \<lparr>userId = ''u2'', sessionCode = ''s2'', entryId = 2,
           timestamp = ''2024-01-01T10:00:00.000Z'', entryMessage = ''Typed w'', data = ''{}''\<rparr>"

definition rowA2 :: LogEntry where
  "rowA2 = \<lparr>userId = ''u1'', sessionCode = ''s1'', entryId = 3,
            timestamp = ''2024-01-01T10:00:00.000Z'', entryMessage = ''Typed e'', data = ''{}''\<rparr>"

definition mixedDatabase :: sqlite where
  "mixedDatabase =
     \<lparr>logs = Some [rowA1, rowB, rowA2], nextEntryId = 4, openConnections = {0}, nextConnection = 1,
      canOpen = True, fault = None\<rparr>"

definition afterDelete :: sqlite where
  "afterDelete =
     \<lparr>logs = Some [rowB], nextEntryId = 4, openConnections = {0}, nextConnection = 2,
      canOpen = True, fault = None\<rparr>"


text \<open>Two distinct sessions whose keys coincide.\<close>

definition sessionAB_C :: SessionIdentifier where
  "sessionAB_C = \<lparr>userId = ''a-b'', sessionCode = ''c''\<rparr>"

definition sessionA_BC :: SessionIdentifier where
  "sessionA_BC = \<lparr>userId = ''a'', sessionCode = ''b-c''\<rparr>"

definition handleAB_C :: SQLiteLogger where
  "handleAB_C =
     \<lparr>userId = ''a-b'', sessionCode = ''c'', dbName = ''appLogs.db'', db = Some 0,
      isInitialized = True\<rparr>"

definition registeredAB_C :: loggerService where
  "registeredAB_C =
     \<lparr>loggers = [''a-b-c'' \<mapsto> 0], currentLogger = Some 0, objects = [0 \<mapsto> handleAB_C],
      nextObject = 1, serviceDbName = ''appLogs.db''\<rparr>"

section \<open>Properties of the touch resolution\<close>

subsection \<open>Sorting and the closest distance\<close>


lemma insertBy_byScore: "insertBy byScore a xs = insort_key (\<lambda>c. - score c) a xs"
  by (induction xs) (simp_all add: byScore_def)

lemma sortBy_byScore: "sortBy byScore xs = sort_key (\<lambda>c. - score c) xs"
  by (induction xs) (simp_all add: sortBy_def insertBy_byScore)

lemma insertBy_byDistance: "insertBy byDistance a xs = insort_key distance a xs"
  by (induction xs) (simp_all add: byDistance_def)

lemma sortBy_byDistance: "sortBy byDistance xs = sort_key distance xs"
  by (induction xs) (simp_all add: sortBy_def insertBy_byDistance)

lemma hd_insort_key:
  "hd (insort_key f a xs) = (if xs = [] \<or> f a \<le> f (hd xs) then a else hd xs)"
  by (cases xs) simp_all

lemma sort_key_Nil_iff: "sort_key f xs = [] \<longleftrightarrow> xs = []"
  by (metis length_sort list.size(3) length_0_conv)

lemma hd_sort_key_first_min:
  fixes f :: "'a \<Rightarrow> real"
  assumes "xs \<noteq> []"
  shows "\<exists>i<length xs. xs ! i = hd (sort_key f xs) \<and>
           (\<forall>j<length xs. f (xs ! i) \<le> f (xs ! j)) \<and> (\<forall>j<i. f (xs ! i) < f (xs ! j))"
  using assms
proof (induction xs)
  case Nil
  then show ?case by simp
next
  case (Cons a xs)
  show ?case
  proof (cases "xs = []")
    case True
    then show ?thesis by simp
  next
    case False
    let ?h = "hd (sort_key f xs)"
    from Cons.IH[OF False] obtain i where i: "i < length xs" "xs ! i = ?h"
      "\<forall>j<length xs. f (xs ! i) \<le> f (xs ! j)" "\<forall>j<i. f (xs ! i) < f (xs ! j)"
      by blast
    from False have ne: "sort_key f xs \<noteq> []" by (simp add: sort_key_Nil_iff)
    have hd_eq: "hd (sort_key f (a # xs)) = (if f a \<le> f ?h then a else ?h)"
      using ne by (simp add: hd_insort_key)
    show ?thesis
    proof (cases "f a \<le> f ?h")
      case True
      have "\<forall>j<length (a # xs). f ((a # xs) ! 0) \<le> f ((a # xs) ! j)"
      proof (intro allI impI)
        fix j assume "j < length (a # xs)"
        then show "f ((a # xs) ! 0) \<le> f ((a # xs) ! j)"
          using True i(2,3) by (cases j) (auto intro: order_trans)
      qed
      then show ?thesis using True hd_eq
        by (intro exI[of _ 0]) simp
    next
      case F: False
      have a1: "\<forall>j<length (a # xs). f ((a # xs) ! Suc i) \<le> f ((a # xs) ! j)"
      proof (intro allI impI)
        fix j assume "j < length (a # xs)"
        then show "f ((a # xs) ! Suc i) \<le> f ((a # xs) ! j)"
          using F i(2,3) by (cases j) auto
      qed
      have a2: "\<forall>j<Suc i. f ((a # xs) ! Suc i) < f ((a # xs) ! j)"
      proof (intro allI impI)
        fix j assume "j < Suc i"
        then show "f ((a # xs) ! Suc i) < f ((a # xs) ! j)"
          using F i(2,4) by (cases j) auto
      qed
      show ?thesis using F hd_eq i(1,2) a1 a2
        by (intro exI[of _ "Suc i"]) simp
    qed
  qed
qed

lemma closestDistance_fold:
  "closestDistance (Some d) cs = Some (fold min (map distance cs) d)"
  by (induction cs arbitrary: d) (simp_all add: min.commute)

lemma closestDistance_Min:
  "closestDistance None (c # cs) = Some (Min (distance ` set (c # cs)))"
proof -
  have "Min (set (distance c # map distance cs)) = fold min (map distance cs) (distance c)"
    by (rule Min.set_eq_fold)
  then show ?thesis by (simp add: closestDistance_fold)
qed

lemma closestDistance_candidatesOf:
  assumes "keyPositions st \<noteq> []"
  shows "closestDistance None (candidatesOf tbl st lx ly)
           = Some (Min (centerDistance lx ly ` set (keyPositions st)))"
proof -
  obtain k ks where ks: "keyPositions st = k # ks" using assms by (cases "keyPositions st") auto
  have "distance ` set (candidatesOf tbl st lx ly) = centerDistance lx ly ` set (keyPositions st)"
    by (auto simp: candidatesOf_def mkCandidate_def image_iff)
  moreover have "candidatesOf tbl st lx ly \<noteq> []" using assms by (simp add: candidatesOf_def)
  ultimately show ?thesis
    by (metis closestDistance_Min list.exhaust)
qed

lemma resolve_rejects:
  assumes "keyPositions st = [] \<or>
           Min (centerDistance lx ly ` set (keyPositions st)) > 0.5 * min (gridWidth st) (gridHeight st)"
  shows "resolve tbl st lx ly = None"
proof (cases "keyPositions st = []")
  case True
  then show ?thesis by (simp add: resolve_def)
next
  case False
  with assms have "Min (centerDistance lx ly ` set (keyPositions st)) > 0.5 * min (gridWidth st) (gridHeight st)"
    by simp
  then show ?thesis using False
    by (simp add: resolve_def closestDistance_candidatesOf MAX_DISTANCE_THRESHOLD_FACTOR_def Let_def)
qed


lemma resolve_accepted:
  assumes "accepted st lx ly"
  shows "resolve tbl st lx ly = Some (sortBy byScore (candidatesOf tbl st lx ly))"
    and "candidatesOf tbl st lx ly \<noteq> []"
proof -
  from assms have ne: "keyPositions st \<noteq> []" by (simp add: accepted_def)
  then show c: "candidatesOf tbl st lx ly \<noteq> []" by (simp add: candidatesOf_def)
  show "resolve tbl st lx ly = Some (sortBy byScore (candidatesOf tbl st lx ly))"
    using assms c
    by (simp add: accepted_def resolve_def closestDistance_candidatesOf
        MAX_DISTANCE_THRESHOLD_FACTOR_def Let_def)
qed

lemma candidatesOf_nth:
  "i < length (keyPositions st) \<Longrightarrow>
     keyPos (candidatesOf tbl st lx ly ! i) = keyPositions st ! i \<and>
     score (candidatesOf tbl st lx ly ! i) = scoreOf tbl st lx ly (keyPositions st ! i) \<and>
     distance (candidatesOf tbl st lx ly ! i) = centerDistance lx ly (keyPositions st ! i) \<and>
     touchInside (candidatesOf tbl st lx ly ! i) = inside lx ly (keyPositions st ! i)"
  by (simp add: candidatesOf_def mkCandidate_def)

lemma chosen_accepted:
  assumes "accepted st lx ly"
  shows "chosen tbl st lx ly = Some (keyPos (hd (sort_key (\<lambda>c. - score c) (candidatesOf tbl st lx ly))))"
proof -
  let ?s = "sort_key (\<lambda>c. - score c) (candidatesOf tbl st lx ly)"
  have "?s \<noteq> []" using resolve_accepted(2)[OF assms] by (simp add: sort_key_Nil_iff)
  then obtain b r where "?s = b # r" by (cases ?s) auto
  then show ?thesis using resolve_accepted(1)[OF assms, of tbl]
    by (simp add: chosen_def sortBy_byScore)
qed

lemma chosen_first_max:
  assumes "accepted st lx ly" and "measurable st"
  shows "\<exists>i<length (keyPositions st).
           chosen tbl st lx ly = Some (keyPositions st ! i) \<and>
           (\<forall>j<length (keyPositions st).
               scoreOf tbl st lx ly (keyPositions st ! j) \<le> scoreOf tbl st lx ly (keyPositions st ! i)) \<and>
           (\<forall>j<i. scoreOf tbl st lx ly (keyPositions st ! j) < scoreOf tbl st lx ly (keyPositions st ! i))"
proof -
  let ?cs = "candidatesOf tbl st lx ly"
  have len: "length ?cs = length (keyPositions st)" by (simp add: candidatesOf_def)
  from hd_sort_key_first_min[OF resolve_accepted(2)[OF assms(1)], of tbl "\<lambda>c. - score c"]
  obtain i where i: "i < length ?cs" "?cs ! i = hd (sort_key (\<lambda>c. - score c) ?cs)"
    "\<forall>j<length ?cs. - score (?cs ! i) \<le> - score (?cs ! j)"
    "\<forall>j<i. - score (?cs ! i) < - score (?cs ! j)" by blast
  have ki: "chosen tbl st lx ly = Some (keyPositions st ! i)"
    using i(1,2) len candidatesOf_nth[of i st tbl lx ly] chosen_accepted[OF assms(1), of tbl] by simp
  show ?thesis
  proof (intro exI[of _ i] conjI allI impI)
    show "i < length (keyPositions st)" using i(1) len by simp
    show "chosen tbl st lx ly = Some (keyPositions st ! i)" by (rule ki)
  next
    fix j assume j: "j < length (keyPositions st)"
    then show "scoreOf tbl st lx ly (keyPositions st ! j) \<le> scoreOf tbl st lx ly (keyPositions st ! i)"
      using i(1,3) len candidatesOf_nth[of j st tbl lx ly] candidatesOf_nth[of i st tbl lx ly]
      by fastforce
  next
    fix j assume j: "j < i"
    then show "scoreOf tbl st lx ly (keyPositions st ! j) < scoreOf tbl st lx ly (keyPositions st ! i)"
      using i(1,4) len candidatesOf_nth[of j st tbl lx ly] candidatesOf_nth[of i st tbl lx ly]
      by fastforce
  qed
qed

lemma fallback_score:
  assumes "\<not> dynamicHitboxEnabled st \<or> \<not> truthy (lastLetterPressed st)"
  shows "scoreOf tbl st lx ly kp = - exp (normalizedDistance lx ly kp)"
  using assms by (auto simp: keyScore_def truthy_def Let_def split: option.splits)

lemma fallback_not_changed:
  assumes "\<not> dynamicHitboxEnabled st \<or> \<not> truthy (lastLetterPressed st)"
  shows "probabilityDidChangeOutcome st cs = False"
  using assms by (auto simp: probabilityDidChangeOutcome_def)

lemma outcomeChanged_accepted:
  assumes "accepted st lx ly"
  shows "outcomeChanged tbl st lx ly
           = Some (probabilityDidChangeOutcome st (sortBy byScore (candidatesOf tbl st lx ly)))"
proof -
  let ?s = "sortBy byScore (candidatesOf tbl st lx ly)"
  have "?s \<noteq> []" using resolve_accepted(2)[OF assms] by (simp add: sort_key_Nil_iff sortBy_byScore)
  then obtain b r where "?s = b # r" by (cases ?s) auto
  then show ?thesis using resolve_accepted(1)[OF assms, of tbl]
    by (simp add: outcomeChanged_def)
qed

lemma same_size_distance:
  assumes "width k + height k = a" "width k' + height k' = a" "a > 0"
    and "normalizedDistance lx ly k \<le> normalizedDistance lx ly k'"
  shows "centerDistance lx ly k \<le> centerDistance lx ly k'"
  using assms by (simp add: normalizedDistance_def Let_def divide_le_cancel)

lemma lower_char_noCapital:
  assumes a: "c \<notin> set ''ABCDEFGHIJKLMNOPQRSTUVWXYZ''"
  shows "lower_char c = c"
proof -
  have "map fst (zip ''ABCDEFGHIJKLMNOPQRSTUVWXYZ'' ''abcdefghijklmnopqrstuvwxyz'')
                   = ''ABCDEFGHIJKLMNOPQRSTUVWXYZ''"
    by (rule map_fst_zip) simp
  then have "set (map fst (zip ''ABCDEFGHIJKLMNOPQRSTUVWXYZ'' ''abcdefghijklmnopqrstuvwxyz''))
                   = set ''ABCDEFGHIJKLMNOPQRSTUVWXYZ''"
    by (rule arg_cong)
  then have b: "fst ` set (zip ''ABCDEFGHIJKLMNOPQRSTUVWXYZ'' ''abcdefghijklmnopqrstuvwxyz'')
                   = set ''ABCDEFGHIJKLMNOPQRSTUVWXYZ''"
    by (simp only: set_map)
  have "c \<notin> fst ` set (zip ''ABCDEFGHIJKLMNOPQRSTUVWXYZ'' ''abcdefghijklmnopqrstuvwxyz'')"
    unfolding b by (rule a)
  then have "map_of (zip ''ABCDEFGHIJKLMNOPQRSTUVWXYZ'' ''abcdefghijklmnopqrstuvwxyz'') c = None"
    by (rule map_of_eq_None_iff[THEN iffD2])
  then show ?thesis by (simp only: lower_char_def option.case)
qed

lemma toLowerCase_noCapital: "noCapital s \<Longrightarrow> toLowerCase s = s"
  unfolding noCapital_def toLowerCase_def list_all_iff
  by (rule map_idI) (rule lower_char_noCapital, blast)

lemma is_az_noCapital:
  assumes "is_az s"
  shows "noCapital s"
proof -
  from assms obtain c where s: "s = [c]" by (auto simp: is_az_def split: list.splits)
  with assms have c: "c \<in> set ''abcdefghijklmnopqrstuvwxyz''" by (simp only: is_az_def list.case)
  have "set ''abcdefghijklmnopqrstuvwxyz'' \<inter> set ''ABCDEFGHIJKLMNOPQRSTUVWXYZ'' = {}"
    by simp
  with c have "c \<notin> set ''ABCDEFGHIJKLMNOPQRSTUVWXYZ''" by blast
  then show ?thesis unfolding s noCapital_def by (simp only: list.pred_inject simp_thms)
qed

lemma is_az_toLowerCase: "is_az s \<Longrightarrow> toLowerCase s = s"
  by (rule toLowerCase_noCapital) (rule is_az_noCapital)

lemma getProbability_cases:
  "getProbability tbl prev cand =
     (if is_az (toLowerCase prev) \<and> is_az (toLowerCase cand)
      then (case tbl (toLowerCase prev) of
              None \<Rightarrow> 1 / 2
            | Some inner \<Rightarrow> (case inner (toLowerCase cand) of None \<Rightarrow> 1 / 2 | Some p \<Rightarrow> p))
      else 1 / 2)"
  by (simp add: getProbability_def DEFAULT_PROBABILITY_def Let_def split: option.splits)

lemma getProbability_noCapital:
  assumes "noCapital prev" and "noCapital cand"
  shows "getProbability tbl prev cand = specProbability tbl prev cand"
  unfolding getProbability_cases specProbability_def
    toLowerCase_noCapital[OF assms(1)] toLowerCase_noCapital[OF assms(2)]
  by (simp split: option.splits)

text \<open>
  The keys that \<^verbatim>\<open>onGridLayout\<close> computes carry the letters of \<^verbatim>\<open>keyLayout\<close>, whatever the size
  of the grid: single lowercase letters.
\<close>

lemma computePositions_letters:
  "map letter (computePositions w h) = concat keyLayout"
  by (simp add: computePositions_def layoutRow_def keyLayout_def upt_rec Let_def)

lemma computePositions_noCapital:
  "list_all (\<lambda>kp. noCapital (letter kp)) (computePositions w h)"
proof -
  have "list_all noCapital (concat keyLayout)"
    by (simp add: keyLayout_def noCapital_def)
  then have "list_all noCapital (map letter (computePositions w h))"
    by (simp only: computePositions_letters)
  then show ?thesis by (simp add: list_all_iff)
qed

lemma find_touched:
  assumes "distinct (map (letter \<circ> keyPos) (b # r))"
  shows "(case find touchInside (b # r) of
            None \<Rightarrow> True
          | Some t \<Rightarrow> letter (keyPos t) \<noteq> letter (keyPos b)) = (\<not> touchInside b)"
proof (cases "touchInside b")
  case True
  then show ?thesis by simp
next
  case False
  show ?thesis
  proof (cases "find touchInside r")
    case None
    then show ?thesis using False by simp
  next
    case (Some t)
    then have "t \<in> set r" by (auto simp: find_Some_iff)
    then have "letter (keyPos t) \<in> (\<lambda>x. letter (keyPos x)) ` set r" by (rule imageI)
    then have "letter (keyPos t) \<noteq> letter (keyPos b)" using assms by auto
    then show ?thesis using False Some by simp
  qed
qed

lemma nearest_accepted:
  assumes "accepted st lx ly"
  shows "nearest tbl st lx ly
           = Some (keyPos (hd (sortBy byDistance (sortBy byScore (candidatesOf tbl st lx ly)))))"
proof -
  let ?s = "sortBy byScore (candidatesOf tbl st lx ly)"
  have ne: "?s \<noteq> []" using resolve_accepted(2)[OF assms] by (simp add: sort_key_Nil_iff sortBy_byScore)
  then obtain b r where s: "?s = b # r" by (cases ?s) auto
  have "sortBy byDistance ?s \<noteq> []" using ne by (simp add: sort_key_Nil_iff sortBy_byDistance)
  then obtain n m where "sortBy byDistance ?s = n # m" by (cases "sortBy byDistance ?s") auto
  then show ?thesis using resolve_accepted(1)[OF assms, of tbl] s
    by (simp add: nearest_def)
qed

lemma hd_sort_key_least:
  fixes f :: "'a \<Rightarrow> real"
  assumes "xs \<noteq> []"
  shows "hd (sort_key f xs) \<in> set xs \<and> (\<forall>x \<in> set xs. f (hd (sort_key f xs)) \<le> f x)"
proof -
  from hd_sort_key_first_min[OF assms, of f]
  obtain i where i: "i < length xs" "xs ! i = hd (sort_key f xs)"
    "\<forall>j<length xs. f (xs ! i) \<le> f (xs ! j)" by blast
  show ?thesis
  proof (intro conjI ballI)
    show "hd (sort_key f xs) \<in> set xs" using i(1,2) by (metis nth_mem)
    fix x assume "x \<in> set xs"
    then obtain j where "j < length xs" "xs ! j = x" by (auto simp: in_set_conv_nth)
    then show "f (hd (sort_key f xs)) \<le> f x" using i(2,3) by auto
  qed
qed

lemma candidatesOf_fields:
  assumes "c \<in> set (candidatesOf tbl st lx ly)"
  shows "keyPos c \<in> set (keyPositions st) \<and> touchInside c = inside lx ly (keyPos c) \<and>
         distance c = centerDistance lx ly (keyPos c)"
  using assms by (auto simp: candidatesOf_def mkCandidate_def)

lemma sortBy_simps:
  "sortBy cmp [] = []"
  "sortBy cmp (x # xs) = insertBy cmp x (sortBy cmp xs)"
  by (simp_all add: sortBy_def)

lemma exp_four_fifths: "exp (4 / 5 :: real) < 18"
proof -
  have "exp (4 / 5 :: real) \<le> exp 1" by simp
  also have "\<dots> \<le> 3" by (rule exp_le)
  finally show ?thesis by simp
qed

lemma scoreA_18: "scoreOf exampleTable exampleBoard 18 10 keyA = (1 / 20) * exp (- (16 / 25))"
  by (simp add: exampleBoard_def keyA_def keyScore_def normalizedDistance_def
      centerDistance_def getProbability_def toLowerCase_def lower_char_def is_az_def
      exampleTable_def power2_eq_square)

lemma scoreS_18: "scoreOf exampleTable exampleBoard 18 10 keyS = (9 / 10) * exp (- (36 / 25))"
  by (simp add: exampleBoard_def keyS_def keyScore_def normalizedDistance_def
      centerDistance_def getProbability_def toLowerCase_def lower_char_def is_az_def
      exampleTable_def power2_eq_square)

lemma score_18_less:
  "scoreOf exampleTable exampleBoard 18 10 keyA < scoreOf exampleTable exampleBoard 18 10 keyS"
proof -
  have "exp (- (16 / 25) :: real) = exp (4 / 5) * exp (- (36 / 25))"
    by (simp add: exp_add[symmetric])
  also have "\<dots> < 18 * exp (- (36 / 25))"
    using exp_four_fifths by simp
  finally show ?thesis unfolding scoreA_18 scoreS_18 by simp
qed

lemma candidates_18:
  "candidatesOf exampleTable exampleBoard 18 10 =
     [\<lparr>keyPos = keyA, distance = 8, score = scoreOf exampleTable exampleBoard 18 10 keyA, touchInside = True\<rparr>,
      \<lparr>keyPos = keyS, distance = 12, score = scoreOf exampleTable exampleBoard 18 10 keyS, touchInside = False\<rparr>]"
  by (simp add: candidatesOf_def mkCandidate_def exampleBoard_def centerDistance_def inside_def
      keyA_def keyS_def)

lemma sorted_18:
  "sortBy byScore (candidatesOf exampleTable exampleBoard 18 10) =
     [\<lparr>keyPos = keyS, distance = 12, score = scoreOf exampleTable exampleBoard 18 10 keyS, touchInside = False\<rparr>,
      \<lparr>keyPos = keyA, distance = 8, score = scoreOf exampleTable exampleBoard 18 10 keyA, touchInside = True\<rparr>]"
  unfolding candidates_18 using score_18_less by (simp add: sortBy_simps byScore_def)

lemma accepted_18: "accepted exampleBoard 18 10"
  by (simp add: accepted_def exampleBoard_def keyA_def keyS_def centerDistance_def)

lemma computePositions_wide:
  "computePositions 630 90 =
     [\<lparr>kx = 0, ky = 0, width = 63, height = 30, letter = ''q'', row = 0, col = 0\<rparr>,
      \<lparr>kx = 63, ky = 0, width = 63, height = 30, letter = ''w'', row = 0, col = 1\<rparr>,
      \<lparr>kx = 126, ky = 0, width = 63, height = 30, letter = ''e'', row = 0, col = 2\<rparr>,
      \<lparr>kx = 189, ky = 0, width = 63, height = 30, letter = ''r'', row = 0, col = 3\<rparr>,
      \<lparr>kx = 252, ky = 0, width = 63, height = 30, letter = ''t'', row = 0, col = 4\<rparr>,
      \<lparr>kx = 315, ky = 0, width = 63, height = 30, letter = ''y'', row = 0, col = 5\<rparr>,
      \<lparr>kx = 378, ky = 0, width = 63, height = 30, letter = ''u'', row = 0, col = 6\<rparr>,
      \<lparr>kx = 441, ky = 0, width = 63, height = 30, letter = ''i'', row = 0, col = 7\<rparr>,
      \<lparr>kx = 504, ky = 0, width = 63, height = 30, letter = ''o'', row = 0, col = 8\<rparr>,
      \<lparr>kx = 567, ky = 0, width = 63, height = 30, letter = ''p'', row = 0, col = 9\<rparr>,
      wideA,
      \<lparr>kx = 70, ky = 30, width = 70, height = 30, letter = ''s'', row = 1, col = 1\<rparr>,
      \<lparr>kx = 140, ky = 30, width = 70, height = 30, letter = ''d'', row = 1, col = 2\<rparr>,
      \<lparr>kx = 210, ky = 30, width = 70, height = 30, letter = ''f'', row = 1, col = 3\<rparr>,
      \<lparr>kx = 280, ky = 30, width = 70, height = 30, letter = ''g'', row = 1, col = 4\<rparr>,
      \<lparr>kx = 350, ky = 30, width = 70, height = 30, letter = ''h'', row = 1, col = 5\<rparr>,
      \<lparr>kx = 420, ky = 30, width = 70, height = 30, letter = ''j'', row = 1, col = 6\<rparr>,
      \<lparr>kx = 490, ky = 30, width = 70, height = 30, letter = ''k'', row = 1, col = 7\<rparr>,
      \<lparr>kx = 560, ky = 30, width = 70, height = 30, letter = ''l'', row = 1, col = 8\<rparr>,
      wideZ,
      \<lparr>kx = 90, ky = 60, width = 90, height = 30, letter = ''x'', row = 2, col = 1\<rparr>,
      \<lparr>kx = 180, ky = 60, width = 90, height = 30, letter = ''c'', row = 2, col = 2\<rparr>,
      \<lparr>kx = 270, ky = 60, width = 90, height = 30, letter = ''v'', row = 2, col = 3\<rparr>,
      \<lparr>kx = 360, ky = 60, width = 90, height = 30, letter = ''b'', row = 2, col = 4\<rparr>,
      \<lparr>kx = 450, ky = 60, width = 90, height = 30, letter = ''n'', row = 2, col = 5\<rparr>,
      \<lparr>kx = 540, ky = 60, width = 90, height = 30, letter = ''m'', row = 2, col = 6\<rparr>]"
  by (simp add: computePositions_def layoutRow_def keyLayout_def wideA_def wideZ_def upt_rec)


lemma normalizedDistance_squared:
  "(normalizedDistance lx ly k)\<^sup>2 = squaredNormalized lx ly k"
  by (simp add: normalizedDistance_def squaredNormalized_def centerDistance_def Let_def
      power_divide power2_eq_square)

lemma normalizedDistance_less:
  assumes "width k' + height k' > 0"
    and "squaredNormalized lx ly k < squaredNormalized lx ly k'"
  shows "normalizedDistance lx ly k < normalizedDistance lx ly k'"
proof -
  have "normalizedDistance lx ly k' \<ge> 0"
    using assms(1) by (simp add: normalizedDistance_def centerDistance_def Let_def)
  moreover have "(normalizedDistance lx ly k)\<^sup>2 < (normalizedDistance lx ly k')\<^sup>2"
    using assms(2) by (simp add: normalizedDistance_squared)
  ultimately show ?thesis by (rule power2_less_imp_less[rotated])
qed

lemma chosen_unique_maximum:
  assumes "accepted st lx ly" and "measurable st" and "k \<in> set (keyPositions st)"
    and "\<forall>k' \<in> set (keyPositions st). k' \<noteq> k \<longrightarrow> scoreOf tbl st lx ly k' < scoreOf tbl st lx ly k"
  shows "chosen tbl st lx ly = Some k"
proof -
  from chosen_first_max[OF assms(1,2), of tbl]
  obtain i where i: "i < length (keyPositions st)" "chosen tbl st lx ly = Some (keyPositions st ! i)"
    "\<forall>j<length (keyPositions st).
        scoreOf tbl st lx ly (keyPositions st ! j) \<le> scoreOf tbl st lx ly (keyPositions st ! i)"
    by blast
  from assms(3) obtain j where j: "j < length (keyPositions st)" "keyPositions st ! j = k"
    by (auto simp: in_set_conv_nth)
  have "keyPositions st ! i = k"
  proof (rule ccontr)
    assume "keyPositions st ! i \<noteq> k"
    then have "scoreOf tbl st lx ly (keyPositions st ! i) < scoreOf tbl st lx ly k"
      using assms(4) i(1) by simp
    then show False using i(3) j by auto
  qed
  then show ?thesis using i(2) by simp
qed

lemma wideBoard_fields:
  "keyPositions wideBoard = computePositions 630 90"
  "gridWidth wideBoard = 630" "gridHeight wideBoard = 90"
  "dynamicHitboxEnabled wideBoard = False"
  by (simp_all add: wideBoard_def onGridLayout_def initialKeyboard_def Let_def)

lemma wide_positive: "\<forall>k \<in> set (computePositions 630 90). width k + height k > 0"
  unfolding computePositions_wide by (simp add: wideA_def wideZ_def)

lemma wide_compare:
  "\<forall>k \<in> set (computePositions 630 90). k \<noteq> wideZ \<longrightarrow>
      squaredNormalized 40 59 wideZ < squaredNormalized 40 59 k"
  unfolding computePositions_wide
  by (simp add: wideA_def wideZ_def squaredNormalized_def power2_eq_square)

lemma wide_accepted: "accepted wideBoard 40 59"
proof -
  have a: "wideA \<in> set (computePositions 630 90)" unfolding computePositions_wide by simp
  have "centerDistance 40 59 wideA = sqrt 221"
    unfolding centerDistance_def wideA_def by (simp add: Let_def)
  also have "sqrt 221 \<le> sqrt (45\<^sup>2)"
    by (rule real_sqrt_le_mono) simp
  finally have "\<not> 45 < centerDistance 40 59 wideA" by simp
  with a have "\<exists>x\<in>set (computePositions 630 90). \<not> 45 < centerDistance 40 59 x" by blast
  moreover have "computePositions 630 90 \<noteq> []" unfolding computePositions_wide by simp
  ultimately show ?thesis by (simp add: accepted_def wideBoard_fields)
qed

subsection \<open>The score in adaptive mode\<close>

text \<open>
  C1. For every tap point and key-geometry list, with the adaptive mode on and a last letter
  present, the score computed for each candidate key equals
  \<open>probability(lastLetter, letter) * exp(-(normalized\<^sup>2) / 0.25)\<close>, where \<open>normalized\<close> is the
  Euclidean distance from the tap to the centre of the key's rectangle divided by the average
  of the key's width and height, and \<open>probability(prev, cand)\<close> is the table entry when both
  characters are lowercase \<^verbatim>\<open>a\<close>..\<^verbatim>\<open>z\<close> and an entry exists, and \<open>0.5\<close> otherwise. The last
  letter and the letters of the keys hold no capital letter, as on every run of the
  component; \<^verbatim>\<open>getProbability\<close> then is the specification's \<open>probability\<close>.
\<close>

theorem adaptive_score_formula:
  assumes "dynamicHitboxEnabled st" and "lastLetterPressed st = Some l" and "l \<noteq> []"
    and "measurable st"
    and "noCapital l" and "list_all (\<lambda>kp. noCapital (letter kp)) (keyPositions st)"
  shows "map keyPos (candidatesOf tbl st lx ly) = keyPositions st \<and>
         (\<forall>c \<in> set (candidatesOf tbl st lx ly).
            distance c = sqrt ((lx - (kx (keyPos c) + width (keyPos c) / 2))\<^sup>2
                             + (ly - (ky (keyPos c) + height (keyPos c) / 2))\<^sup>2) \<and>
            score c = specProbability tbl l (letter (keyPos c))
                        * exp (- ((distance c / ((width (keyPos c) + height (keyPos c)) / 2))\<^sup>2) / 0.25)) \<and>
         (noCapital prev \<and> noCapital cand \<longrightarrow>
            getProbability tbl prev cand = specProbability tbl prev cand)"
proof (intro conjI ballI impI)
  show "map keyPos (candidatesOf tbl st lx ly) = keyPositions st"
    by (simp add: candidatesOf_def mkCandidate_def comp_def)
next
  fix c assume "c \<in> set (candidatesOf tbl st lx ly)"
  then obtain kp where kp: "kp \<in> set (keyPositions st)"
    and c: "c = mkCandidate tbl True (Some l) lx ly kp"
    using assms(1,2) by (auto simp: candidatesOf_def)
  from kp assms(6) have "noCapital (letter kp)" by (simp add: list_all_iff)
  then have p: "getProbability tbl l (letter kp) = specProbability tbl l (letter kp)"
    using assms(5) by (simp add: getProbability_noCapital)
  show "distance c = sqrt ((lx - (kx (keyPos c) + width (keyPos c) / 2))\<^sup>2
                             + (ly - (ky (keyPos c) + height (keyPos c) / 2))\<^sup>2)"
    by (simp add: c mkCandidate_def centerDistance_def power2_eq_square Let_def)
  show "score c = specProbability tbl l (letter (keyPos c))
                        * exp (- ((distance c / ((width (keyPos c) + height (keyPos c)) / 2))\<^sup>2) / 0.25)"
    using assms(3) p by (simp add: c mkCandidate_def keyScore_def normalizedDistance_def Let_def)
next
  assume "noCapital prev \<and> noCapital cand"
  then show "getProbability tbl prev cand = specProbability tbl prev cand"
    by (simp add: getProbability_noCapital)
qed

theorem adaptive_score_formula_witness:
  "dynamicHitboxEnabled exampleBoard \<and> lastLetterPressed exampleBoard = Some ''a'' \<and> ''a'' \<noteq> [] \<and>
   measurable exampleBoard \<and> noCapital ''a'' \<and>
   list_all (\<lambda>kp. noCapital (letter kp)) (keyPositions exampleBoard) \<and>
   map keyPos (candidatesOf exampleTable exampleBoard 18 10) = [keyA, keyS] \<and>
   scoreOf exampleTable exampleBoard 18 10 keyA
     = specProbability exampleTable ''a'' ''a'' * exp (- ((8 / ((20 + 20) / 2))\<^sup>2) / 0.25) \<and>
   scoreOf exampleTable exampleBoard 18 10 keyS
     = specProbability exampleTable ''a'' ''s'' * exp (- ((12 / ((20 + 20) / 2))\<^sup>2) / 0.25) \<and>
   specProbability exampleTable ''a'' ''a'' = 1 / 20 \<and>
   specProbability exampleTable ''a'' ''s'' = 9 / 10 \<and>
   getProbability exampleTable ''a'' ''a'' = 1 / 20 \<and>
   getProbability exampleTable ''a'' ''s'' = 9 / 10 \<and>
   getProbability exampleTable ''a'' ''d'' = 1 / 2 \<and>
   getProbability exampleTable ''1'' ''s'' = 1 / 2"
proof -
  have d: "dynamicHitboxEnabled exampleBoard" by (simp add: exampleBoard_def)
  have l: "lastLetterPressed exampleBoard = Some ''a''" by (simp add: exampleBoard_def)
  have n: "''a'' \<noteq> []" by simp
  have m: "measurable exampleBoard"
    by (simp add: measurable_def exampleBoard_def keyA_def keyS_def)
  have nc: "noCapital ''a''" "noCapital ''s''" "noCapital ''d''" "noCapital ''1''"
    by (simp_all add: noCapital_def)
  have ks: "list_all (\<lambda>kp. noCapital (letter kp)) (keyPositions exampleBoard)"
    using nc by (simp add: exampleBoard_def keyA_def keyS_def)
  note formula = adaptive_score_formula[OF d l n m nc(1) ks, of exampleTable 18 10]
  have s0: "specProbability exampleTable ''a'' ''a'' = 1 / 20"
    and s1: "specProbability exampleTable ''a'' ''s'' = 9 / 10"
    and s2: "specProbability exampleTable ''a'' ''d'' = 1 / 2"
    and s3: "specProbability exampleTable ''1'' ''s'' = 1 / 2"
    by (simp_all add: specProbability_def exampleTable_def is_az_def)
  have p0: "getProbability exampleTable ''a'' ''a'' = 1 / 20"
    using formula[of "''a''" "''a''"] nc s0 by simp
  have p1: "getProbability exampleTable ''a'' ''s'' = 9 / 10"
    using formula[of "''a''" "''s''"] nc s1 by simp
  have p2: "getProbability exampleTable ''a'' ''d'' = 1 / 2"
    using formula[of "''a''" "''d''"] nc s2 by simp
  have p3: "getProbability exampleTable ''1'' ''s'' = 1 / 2"
    using formula[of "''1''" "''s''"] nc s3 by simp
  have k: "map keyPos (candidatesOf exampleTable exampleBoard 18 10) = [keyA, keyS]"
    using formula[of "''a''" "''a''"] by (simp add: exampleBoard_def)
  let ?cA = "\<lparr>keyPos = keyA, distance = 8,
              score = scoreOf exampleTable exampleBoard 18 10 keyA, touchInside = True\<rparr>"
  let ?cS = "\<lparr>keyPos = keyS, distance = 12,
              score = scoreOf exampleTable exampleBoard 18 10 keyS, touchInside = False\<rparr>"
  have "?cA \<in> set (candidatesOf exampleTable exampleBoard 18 10)"
    and "?cS \<in> set (candidatesOf exampleTable exampleBoard 18 10)"
    unfolding candidates_18 by simp_all
  then have sA: "score ?cA = specProbability exampleTable ''a'' (letter (keyPos ?cA))
                   * exp (- ((distance ?cA / ((width (keyPos ?cA) + height (keyPos ?cA)) / 2))\<^sup>2) / 0.25)"
    and sS: "score ?cS = specProbability exampleTable ''a'' (letter (keyPos ?cS))
                   * exp (- ((distance ?cS / ((width (keyPos ?cS) + height (keyPos ?cS)) / 2))\<^sup>2) / 0.25)"
    using formula[of "''a''" "''a''"] by blast+
  have a: "scoreOf exampleTable exampleBoard 18 10 keyA
     = specProbability exampleTable ''a'' ''a'' * exp (- ((8 / ((20 + 20) / 2))\<^sup>2) / 0.25)"
    using sA by (simp add: keyA_def)
  have b: "scoreOf exampleTable exampleBoard 18 10 keyS
     = specProbability exampleTable ''a'' ''s'' * exp (- ((12 / ((20 + 20) / 2))\<^sup>2) / 0.25)"
    using sS by (simp add: keyS_def)
  show ?thesis
    using d l n m nc(1) ks k a b s0 s1 p0 p1 p2 p3 by blast
qed

subsection \<open>The outcome-changed flag\<close>

text \<open>
  C2 (amended). For an accepted tap in adaptive mode with a last letter and at least two keys
  with distinct letters, the flag is true if and only if the letter of the top choice by score
  differs from the letter of the top choice by distance and the tap does not fall within the
  rectangle (bounds included) of the top choice by score. The top choice by distance is a key
  whose centre is nearest to the tap.
\<close>

theorem outcome_changed_iff:
  assumes "accepted st lx ly" and "measurable st"
    and "dynamicHitboxEnabled st" and "truthy (lastLetterPressed st)"
    and "length (keyPositions st) > 1" and "distinct (map letter (keyPositions st))"
  shows "\<exists>kp nk. chosen tbl st lx ly = Some kp \<and> nearest tbl st lx ly = Some nk \<and>
           kp \<in> set (keyPositions st) \<and> nk \<in> set (keyPositions st) \<and>
           (\<forall>k \<in> set (keyPositions st). centerDistance lx ly nk \<le> centerDistance lx ly k) \<and>
           outcomeChanged tbl st lx ly = Some (letter kp \<noteq> letter nk \<and> \<not> inside lx ly kp)"
proof -
  let ?cs = "candidatesOf tbl st lx ly"
  let ?s = "sortBy byScore ?cs"
  let ?d = "sortBy byDistance ?s"
  have cne: "?cs \<noteq> []" by (rule resolve_accepted(2)[OF assms(1)])
  have set_s: "set ?s = set ?cs" by (simp add: sortBy_byScore)
  have ne: "?s \<noteq> []" using cne by (simp add: sort_key_Nil_iff sortBy_byScore)
  then obtain b r where s: "?s = b # r" by (cases ?s) auto
  have b_in: "b \<in> set ?cs" using s set_s by (metis list.set_intros(1))
  have d_least: "hd ?d \<in> set ?s \<and> (\<forall>x \<in> set ?s. distance (hd ?d) \<le> distance x)"
    using hd_sort_key_least[OF ne, of distance] by (simp add: sortBy_byDistance)
  have dne: "?d \<noteq> []" using ne by (simp add: sort_key_Nil_iff sortBy_byDistance)
  then obtain n m where d: "?d = n # m" by (cases ?d) auto
  have n_in: "n \<in> set ?cs" using d_least d set_s by simp
  have n_least: "\<forall>k \<in> set (keyPositions st). centerDistance lx ly (keyPos n) \<le> centerDistance lx ly k"
  proof
    fix k assume "k \<in> set (keyPositions st)"
    then have "mkCandidate tbl (dynamicHitboxEnabled st) (lastLetterPressed st) lx ly k \<in> set ?s"
      unfolding set_s by (simp add: candidatesOf_def)
    then have "distance n \<le> distance (mkCandidate tbl (dynamicHitboxEnabled st) (lastLetterPressed st) lx ly k)"
      using d_least d by simp
    then show "centerDistance lx ly (keyPos n) \<le> centerDistance lx ly k"
      using candidatesOf_fields[OF n_in] by (simp add: mkCandidate_def)
  qed
  have "mset (map (letter \<circ> keyPos) ?s) = mset (map (letter \<circ> keyPos) ?cs)"
    by (simp add: sortBy_byScore)
  moreover have "map (letter \<circ> keyPos) ?cs = map letter (keyPositions st)"
    by (simp add: candidatesOf_def mkCandidate_def comp_def)
  ultimately have dist: "distinct (map (letter \<circ> keyPos) (b # r))"
    using assms(6) s by (metis mset_eq_imp_distinct_iff)
  have len: "length (b # r) > 1"
    using assms(5) s[symmetric] by (simp add: sortBy_byScore candidatesOf_def)
  have "probabilityDidChangeOutcome st (b # r)
          = (letter (keyPos b) \<noteq> letter (keyPos n) \<and> \<not> touchInside b)"
    using len assms(3,4) d s find_touched[OF dist]
    by (simp add: probabilityDidChangeOutcome_def)
  then have oc: "outcomeChanged tbl st lx ly
          = Some (letter (keyPos b) \<noteq> letter (keyPos n) \<and> \<not> inside lx ly (keyPos b))"
    using outcomeChanged_accepted[OF assms(1), of tbl] s candidatesOf_fields[OF b_in] by simp
  have ch: "chosen tbl st lx ly = Some (keyPos b)"
    using resolve_accepted(1)[OF assms(1), of tbl] s by (simp add: chosen_def)
  have nr: "nearest tbl st lx ly = Some (keyPos n)"
    using nearest_accepted[OF assms(1), of tbl] d by simp
  show ?thesis
    using ch nr oc n_least candidatesOf_fields[OF b_in] candidatesOf_fields[OF n_in] by blast
qed

theorem outcome_changed_iff_witness:
  "accepted exampleBoard 18 10 \<and> measurable exampleBoard \<and>
   dynamicHitboxEnabled exampleBoard \<and> truthy (lastLetterPressed exampleBoard) \<and>
   length (keyPositions exampleBoard) > 1 \<and> distinct (map letter (keyPositions exampleBoard)) \<and>
   (\<exists>kp nk. chosen exampleTable exampleBoard 18 10 = Some kp \<and>
           nearest exampleTable exampleBoard 18 10 = Some nk \<and>
           kp \<in> set (keyPositions exampleBoard) \<and> nk \<in> set (keyPositions exampleBoard) \<and>
           (\<forall>k \<in> set (keyPositions exampleBoard). centerDistance 18 10 nk \<le> centerDistance 18 10 k) \<and>
           outcomeChanged exampleTable exampleBoard 18 10
             = Some (letter kp \<noteq> letter nk \<and> \<not> inside 18 10 kp))"
proof -
  have a: "accepted exampleBoard 18 10"
    by (simp add: accepted_def exampleBoard_def keyA_def keyS_def centerDistance_def)
  have m: "measurable exampleBoard"
    by (simp add: measurable_def exampleBoard_def keyA_def keyS_def)
  have d: "dynamicHitboxEnabled exampleBoard" by (simp add: exampleBoard_def)
  have t: "truthy (lastLetterPressed exampleBoard)" by (simp add: exampleBoard_def truthy_def)
  have l: "length (keyPositions exampleBoard) > 1" by (simp add: exampleBoard_def)
  have s: "distinct (map letter (keyPositions exampleBoard))"
    by (simp add: exampleBoard_def keyA_def keyS_def)
  show ?thesis
    using a m d t l s outcome_changed_iff[OF a m d t l s, of exampleTable] by blast
qed

text \<open>
  The scenario of the specification: the tap \<open>(18, 10)\<close> lies strictly inside the rectangle of
  \<^verbatim>\<open>a\<close>, the nearest key; \<^verbatim>\<open>s\<close> is chosen, and the flag is true, where the claim as stated
  makes it false.
\<close>

theorem outcome_changed_inside_nearest_counterexample:
  "chosen exampleTable exampleBoard 18 10 = Some keyS \<and>
   nearest exampleTable exampleBoard 18 10 = Some keyA \<and>
   kx keyA < 18 \<and> 18 < kx keyA + width keyA \<and> ky keyA < 10 \<and> 10 < ky keyA + height keyA \<and>
   outcomeChanged exampleTable exampleBoard 18 10 = Some True"
proof -
  have "chosen exampleTable exampleBoard 18 10 = Some keyS"
    by (simp add: chosen_def resolve_accepted(1)[OF accepted_18] sorted_18)
  moreover have "nearest exampleTable exampleBoard 18 10 = Some keyA"
    by (simp add: nearest_def resolve_accepted(1)[OF accepted_18] sorted_18 sortBy_simps byDistance_def)
  moreover have "outcomeChanged exampleTable exampleBoard 18 10 = Some True"
  proof -
    have d: "dynamicHitboxEnabled exampleBoard" by (simp add: exampleBoard_def)
    have t: "truthy (lastLetterPressed exampleBoard)" by (simp add: exampleBoard_def truthy_def)
    show ?thesis
      unfolding outcomeChanged_accepted[OF accepted_18] sorted_18
      using d t
      by (simp add: probabilityDidChangeOutcome_def sortBy_simps byDistance_def keyA_def keyS_def)
  qed
  ultimately show ?thesis by (simp add: keyA_def)
qed

subsection \<open>The fallback mode\<close>

text \<open>
  C3 (amended). With the adaptive mode off, or without a last letter, an accepted tap chooses
  the key of least normalized distance (distance to the centre divided by the average of
  the key's width and height), the first such key in scan order, and the outcome-changed flag
  is false. When all keys have the same positive average dimension, the chosen key is one
  whose centre is nearest to the tap.
\<close>

theorem fallback_chooses_least_normalized_distance:
  assumes "accepted st lx ly" and "measurable st"
    and "\<not> dynamicHitboxEnabled st \<or> \<not> truthy (lastLetterPressed st)"
  shows "\<exists>i<length (keyPositions st).
           chosen tbl st lx ly = Some (keyPositions st ! i) \<and>
           outcomeChanged tbl st lx ly = Some False \<and>
           (\<forall>j<length (keyPositions st).
               normalizedDistance lx ly (keyPositions st ! i) \<le> normalizedDistance lx ly (keyPositions st ! j)) \<and>
           (\<forall>j<i. normalizedDistance lx ly (keyPositions st ! i) < normalizedDistance lx ly (keyPositions st ! j)) \<and>
           ((\<forall>k \<in> set (keyPositions st). width k + height k = a) \<and> a > 0 \<longrightarrow>
              (\<forall>j<length (keyPositions st).
                 centerDistance lx ly (keyPositions st ! i) \<le> centerDistance lx ly (keyPositions st ! j)))"
proof -
  from chosen_first_max[OF assms(1,2), of tbl]
  obtain i where i: "i < length (keyPositions st)" "chosen tbl st lx ly = Some (keyPositions st ! i)"
    "\<forall>j<length (keyPositions st).
               scoreOf tbl st lx ly (keyPositions st ! j) \<le> scoreOf tbl st lx ly (keyPositions st ! i)"
    "\<forall>j<i. scoreOf tbl st lx ly (keyPositions st ! j) < scoreOf tbl st lx ly (keyPositions st ! i)"
    by blast
  have le: "\<forall>j<length (keyPositions st).
               normalizedDistance lx ly (keyPositions st ! i) \<le> normalizedDistance lx ly (keyPositions st ! j)"
    using i(3) by (simp add: fallback_score[OF assms(3)])
  have lt: "\<forall>j<i. normalizedDistance lx ly (keyPositions st ! i) < normalizedDistance lx ly (keyPositions st ! j)"
    using i(4) by (simp add: fallback_score[OF assms(3)])
  have oc: "outcomeChanged tbl st lx ly = Some False"
    by (simp add: outcomeChanged_accepted[OF assms(1)] fallback_not_changed[OF assms(3)])
  have same: "(\<forall>k \<in> set (keyPositions st). width k + height k = a) \<and> a > 0 \<longrightarrow>
              (\<forall>j<length (keyPositions st).
                 centerDistance lx ly (keyPositions st ! i) \<le> centerDistance lx ly (keyPositions st ! j))"
  proof (intro impI allI)
    fix j assume h: "(\<forall>k \<in> set (keyPositions st). width k + height k = a) \<and> a > 0"
      and j: "j < length (keyPositions st)"
    from h i(1) j have "width (keyPositions st ! i) + height (keyPositions st ! i) = a"
      "width (keyPositions st ! j) + height (keyPositions st ! j) = a" by simp_all
    then show "centerDistance lx ly (keyPositions st ! i) \<le> centerDistance lx ly (keyPositions st ! j)"
      using same_size_distance h le j by blast
  qed
  show ?thesis using i(1,2) oc le lt same by blast
qed

theorem fallback_chooses_least_normalized_distance_witness:
  "accepted wideBoard 40 59 \<and> measurable wideBoard \<and> dynamicHitboxEnabled wideBoard = False \<and>
   chosen zeroTable wideBoard 40 59 = Some wideZ \<and>
   outcomeChanged zeroTable wideBoard 40 59 = Some False"
proof -
  have m: "measurable wideBoard"
    using wide_positive by (auto simp: measurable_def wideBoard_fields list_all_iff)
  have fb: "\<not> dynamicHitboxEnabled wideBoard \<or> \<not> truthy (lastLetterPressed wideBoard)"
    by (simp add: wideBoard_fields)
  from fallback_chooses_least_normalized_distance[OF wide_accepted m fb, of zeroTable 100]
  obtain i where i: "i < length (keyPositions wideBoard)"
    "chosen zeroTable wideBoard 40 59 = Some (keyPositions wideBoard ! i)"
    "outcomeChanged zeroTable wideBoard 40 59 = Some False"
    "\<forall>j<length (keyPositions wideBoard).
        normalizedDistance 40 59 (keyPositions wideBoard ! i)
          \<le> normalizedDistance 40 59 (keyPositions wideBoard ! j)"
    by blast
  have "wideZ \<in> set (keyPositions wideBoard)"
    unfolding wideBoard_fields computePositions_wide by simp
  then obtain j where j: "j < length (keyPositions wideBoard)" "keyPositions wideBoard ! j = wideZ"
    by (auto simp: in_set_conv_nth)
  have "keyPositions wideBoard ! i = wideZ"
  proof (rule ccontr)
    assume ne: "keyPositions wideBoard ! i \<noteq> wideZ"
    have in_set: "keyPositions wideBoard ! i \<in> set (computePositions 630 90)"
      using i(1) by (metis nth_mem wideBoard_fields(1))
    then have "normalizedDistance 40 59 wideZ < normalizedDistance 40 59 (keyPositions wideBoard ! i)"
      using ne wide_compare wide_positive by (intro normalizedDistance_less) auto
    then show False using i(4) j by auto
  qed
  then show ?thesis using wide_accepted m i(2,3) by (simp add: wideBoard_fields)
qed

text \<open>
  On the measured \<open>630 \<times> 90\<close> grid the keys of the third row are wider than those of the
  second. The tap \<open>(40, 59)\<close> lies strictly inside the rectangle of \<^verbatim>\<open>a\<close>, whose centre is also
  the nearest one, and yet \<^verbatim>\<open>z\<close> is chosen.
\<close>

theorem inside_key_not_chosen_counterexample:
  "wideA \<in> set (keyPositions wideBoard) \<and>
   kx wideA < 40 \<and> 40 < kx wideA + width wideA \<and> ky wideA < 59 \<and> 59 < ky wideA + height wideA \<and>
   centerDistance 40 59 wideA < centerDistance 40 59 wideZ \<and>
   \<not> dynamicHitboxEnabled wideBoard \<and>
   chosen zeroTable wideBoard 40 59 = Some wideZ \<and> wideZ \<noteq> wideA"
proof -
  have m: "measurable wideBoard"
    using wide_positive by (auto simp: measurable_def wideBoard_fields list_all_iff)
  have z: "wideZ \<in> set (keyPositions wideBoard)"
    unfolding wideBoard_fields computePositions_wide by simp
  have fb: "\<not> dynamicHitboxEnabled wideBoard \<or> \<not> truthy (lastLetterPressed wideBoard)"
    by (simp add: wideBoard_fields)
  have "\<forall>k' \<in> set (keyPositions wideBoard). k' \<noteq> wideZ \<longrightarrow>
          scoreOf zeroTable wideBoard 40 59 k' < scoreOf zeroTable wideBoard 40 59 wideZ"
    using wide_compare wide_positive
    by (auto simp: fallback_score[OF fb] wideBoard_fields(1) intro!: normalizedDistance_less)
  then have c: "chosen zeroTable wideBoard 40 59 = Some wideZ"
    by (rule chosen_unique_maximum[OF wide_accepted m z])
  have a: "wideA \<in> set (keyPositions wideBoard)"
    unfolding wideBoard_fields computePositions_wide by simp
  have d: "centerDistance 40 59 wideA < centerDistance 40 59 wideZ"
    by (simp add: centerDistance_def wideA_def wideZ_def)
  show ?thesis using a c d by (simp add: wideBoard_fields wideA_def wideZ_def)
qed

subsection \<open>Rejected taps\<close>

text \<open>
  C4. A tap whose minimum Euclidean distance to the key centres exceeds
  \<open>0.5 * min(gridWidth, gridHeight)\<close> is rejected, and so is every tap while no key geometry
  has been measured: no key is chosen and the component's state is returned as it was, so
  the message is unchanged and nothing is logged.
\<close>

theorem rejected_tap_is_noop:
  assumes "keyPositions st = [] \<or>
           Min (centerDistance lx ly ` set (keyPositions st)) > 0.5 * min (gridWidth st) (gridHeight st)"
  shows "chosen tbl st lx ly = None \<and> outcomeChanged tbl st lx ly = None \<and>
         onResponderRelease tbl st lx ly = st"
  using resolve_rejects[OF assms] by (simp add: chosen_def outcomeChanged_def onResponderRelease_def)

theorem rejected_tap_is_noop_witness:
  "(keyPositions exampleBoard = [] \<or>
      Min (centerDistance 100 10 ` set (keyPositions exampleBoard))
        > 0.5 * min (gridWidth exampleBoard) (gridHeight exampleBoard)) \<and>
   chosen exampleTable exampleBoard 100 10 = None \<and>
   outcomeChanged exampleTable exampleBoard 100 10 = None \<and>
   onResponderRelease exampleTable exampleBoard 100 10 = exampleBoard \<and>
   message (onResponderRelease exampleTable exampleBoard 100 10) = ''a'' \<and>
   logged (onResponderRelease exampleTable exampleBoard 100 10) = []"
proof -
  have h: "keyPositions exampleBoard = [] \<or>
      Min (centerDistance 100 10 ` set (keyPositions exampleBoard))
        > 0.5 * min (gridWidth exampleBoard) (gridHeight exampleBoard)"
    by (simp add: exampleBoard_def keyA_def keyS_def centerDistance_def)
  have e: "message exampleBoard = ''a''" "logged exampleBoard = []"
    by (simp_all add: exampleBoard_def)
  show ?thesis
    using h rejected_tap_is_noop[OF h, of exampleTable] e by simp
qed

subsection \<open>Selection among the candidates\<close>

text \<open>
  C5 (amended). For every accepted tap the chosen key has the maximum score, and among the
  keys of maximum score it is the earliest in scan order: every key before it scores strictly
  less. The distance plays no part in breaking ties.
\<close>

theorem chosen_is_first_of_maximal_score:
  assumes "accepted st lx ly" and "measurable st"
  shows "\<exists>i<length (keyPositions st).
           chosen tbl st lx ly = Some (keyPositions st ! i) \<and>
           (\<forall>j<length (keyPositions st).
               scoreOf tbl st lx ly (keyPositions st ! j) \<le> scoreOf tbl st lx ly (keyPositions st ! i)) \<and>
           (\<forall>j<i. scoreOf tbl st lx ly (keyPositions st ! j) < scoreOf tbl st lx ly (keyPositions st ! i))"
  using assms by (rule chosen_first_max)

theorem chosen_is_first_of_maximal_score_witness:
  "accepted exampleBoard 25 10 \<and> measurable exampleBoard \<and>
   (\<exists>i<length (keyPositions exampleBoard).
           chosen zeroTable exampleBoard 25 10 = Some (keyPositions exampleBoard ! i) \<and>
           (\<forall>j<length (keyPositions exampleBoard).
               scoreOf zeroTable exampleBoard 25 10 (keyPositions exampleBoard ! j)
                 \<le> scoreOf zeroTable exampleBoard 25 10 (keyPositions exampleBoard ! i)) \<and>
           (\<forall>j<i. scoreOf zeroTable exampleBoard 25 10 (keyPositions exampleBoard ! j)
                 < scoreOf zeroTable exampleBoard 25 10 (keyPositions exampleBoard ! i)))"
proof -
  have a: "accepted exampleBoard 25 10"
    by (simp add: accepted_def exampleBoard_def keyA_def keyS_def centerDistance_def)
  have m: "measurable exampleBoard"
    by (simp add: measurable_def exampleBoard_def keyA_def keyS_def)
  show ?thesis
    using a m chosen_is_first_of_maximal_score[OF a m, of zeroTable] by blast
qed

text \<open>
  With a table of zero probabilities both keys score \<open>0\<close>; the tap \<open>(25, 10)\<close> is nearer to
  \<^verbatim>\<open>s\<close>, and \<^verbatim>\<open>a\<close>, first in scan order, is chosen.
\<close>

theorem selection_tie_counterexample:
  "accepted exampleBoard 25 10 \<and>
   chosen zeroTable exampleBoard 25 10 = Some keyA \<and>
   scoreOf zeroTable exampleBoard 25 10 keyS = scoreOf zeroTable exampleBoard 25 10 keyA \<and>
   centerDistance 25 10 keyS < centerDistance 25 10 keyA"
  by (simp add: accepted_def chosen_def resolve_def exampleBoard_def keyA_def keyS_def candidatesOf_def mkCandidate_def
      centerDistance_def keyScore_def normalizedDistance_def inside_def sortBy_def byScore_def
      MAX_DISTANCE_THRESHOLD_FACTOR_def zeroTable_def getProbability_def toLowerCase_def lower_char_def is_az_def)

section \<open>Properties of the log store\<close>

subsection \<open>Auxiliary facts\<close>

lemma mset_insertDesc: "mset (insertDesc r xs) = add_mset r (mset xs)"
  by (induction xs) simp_all

lemma set_insertDesc: "set (insertDesc r xs) = insert r (set xs)"
  by (induction xs) auto

lemma newestFirst_insertDesc:
  "newestFirst xs \<Longrightarrow> newestFirst (insertDesc r xs)"
  by (induction xs) (auto simp: newestFirst_def set_insertDesc)

lemma stableDesc_valid: "sortsByTimestampDesc stableDesc"
proof -
  have "mset (stableDesc rows) = mset rows \<and> newestFirst (stableDesc rows)" for rows
  proof (induction rows)
    case Nil
    then show ?case by (simp add: stableDesc_def newestFirst_def)
  next
    case (Cons a rows)
    then have "newestFirst (insertDesc a (stableDesc rows))" by (simp add: newestFirst_insertDesc)
    then show ?case using Cons by (simp add: stableDesc_def mset_insertDesc)
  qed
  then show ?thesis by (simp add: sortsByTimestampDesc_def)
qed

lemma stableDesc_rev_valid: "sortsByTimestampDesc (stableDesc \<circ> rev)"
  using stableDesc_valid by (simp add: sortsByTimestampDesc_def)

lemma initialize_handle:
  "initialize (newLogger ''u1'' ''s1'' ''appLogs.db'') freshDatabase = (activeHandle, openedDatabase)"
  by (simp add: initialize_def newLogger_def freshDatabase_def activeHandle_def openedDatabase_def
      openDatabaseAsync_def execCreateTable_def statementError_def storedRows_def endsWith_def)

lemma openDatabaseAsync_rows:
  "openDatabaseAsync w = Inr (c, w1) \<Longrightarrow>
     logs w1 = logs w \<and> nextEntryId w1 = nextEntryId w \<and> canOpen w1 = canOpen w \<and>
     fault w1 = fault w \<and> c \<in> openConnections w1"
  by (auto simp: openDatabaseAsync_def split: if_splits)

lemma initialize_preserves:
  assumes "initialize h w = (h', w')"
  shows "userId h' = userId h \<and> sessionCode h' = sessionCode h \<and>
         storedRows w' = storedRows w \<and> nextEntryId w' = nextEntryId w"
  using assms
  by (auto simp: initialize_def Let_def execCreateTable_def storedRows_def
      dest!: openDatabaseAsync_rows split: sum.splits option.splits prod.splits)

lemma close_preserves:
  assumes "close h w = (h', w')"
  shows "userId h' = userId h \<and> sessionCode h' = sessionCode h \<and> logs w' = logs w \<and>
         canOpen w' = canOpen w \<and> fault w' = fault w"
  using assms
  by (auto simp: close_def closeAsync_def split: option.splits sum.splits if_splits)





lemma orderBy_Nil: "sortsByTimestampDesc orderBy \<Longrightarrow> orderBy [] = []"
  by (metis mset_zero_iff sortsByTimestampDesc_def mset.simps(1))

lemma orderBy_props:
  assumes "sortsByTimestampDesc orderBy"
  shows "mset (orderBy rows) = mset rows" "set (orderBy rows) = set rows"
    "length (orderBy rows) = length rows" "newestFirst (orderBy rows)"
proof -
  show m: "mset (orderBy rows) = mset rows" using assms by (simp add: sortsByTimestampDesc_def)
  show "set (orderBy rows) = set rows" using m by (rule mset_eq_setD)
  show "length (orderBy rows) = length rows" using m by (rule mset_eq_length)
  show "newestFirst (orderBy rows)" using assms by (simp add: sortsByTimestampDesc_def)
qed

lemma newestFirst_take: "newestFirst rows \<Longrightarrow> newestFirst (take n rows)"
  unfolding newestFirst_def by (rule sorted_wrt_take)

lemma closeQuietly_fields:
  "logs (closeQuietly w c) = logs w \<and> canOpen (closeQuietly w c) = canOpen w \<and>
   fault (closeQuietly w c) = fault w \<and> nextEntryId (closeQuietly w c) = nextEntryId w"
  by (simp add: closeQuietly_def closeAsync_def)

lemma storedRows_cong: "logs w' = logs w \<Longrightarrow> storedRows w' = storedRows w"
  by (simp add: storedRows_def)

lemma getLogsForSession_result:
  "fst (getLogsForSession orderBy w session limit) =
     (if canOpen w \<and> fault w = None
      then (case logs w of
              None \<Rightarrow> []
            | Some rows \<Rightarrow> take limit (orderBy (filter (inSession (userId session) (sessionCode session)) rows)))
      else [])"
  by (simp add: getLogsForSession_def openDbConnection_def openDatabaseAsync_def selectSession_def
      statementError_def split: option.splits)

lemma getLogs_result:
  "fst (getLogs orderBy h w limit) = [] \<or>
   fst (getLogs orderBy h w limit) = take limit (orderBy (storedRows w))"
proof (cases "isInitialized h")
  case False
  then show ?thesis by (simp add: getLogs_def)
next
  case True
  obtain h1 w1 where hw: "(case db h of None \<Rightarrow> initialize h w | Some c \<Rightarrow> (h, w)) = (h1, w1)"
    by (cases "case db h of None \<Rightarrow> initialize h w | Some c \<Rightarrow> (h, w)") auto
  then have pre: "storedRows w1 = storedRows w"
    by (cases "db h") (auto dest: initialize_preserves)
  show ?thesis using True hw pre
    by (auto simp: getLogs_def selectAll_def storedRows_def split: option.splits sum.splits)
qed

lemma deleteLogsForSession_ok:
  assumes "canOpen w" and "fault w = None"
  shows "\<exists>svc' w'. deleteLogsForSession svc w session = (True, svc', w') \<and>
           logs w' = map_option (filter (\<lambda>r. \<not> inSession (userId session) (sessionCode session) r)) (logs w) \<and>
           canOpen w' \<and> fault w' = None \<and>
           (logs w = None \<longrightarrow> svc' = svc) \<and>
           (logs w \<noteq> None \<longrightarrow> loggers svc' (loggerKey (userId session) (sessionCode session)) = None) \<and>
           (loggers svc (loggerKey (userId session) (sessionCode session)) = None \<longrightarrow> svc' = svc)"
proof -
  let ?c = "nextConnection w"
  let ?w1 = "w\<lparr>openConnections := insert ?c (openConnections w), nextConnection := ?c + 1\<rparr>"
  let ?key = "loggerKey (userId session) (sessionCode session)"
  have o: "openDbConnection w = (Some ?c, ?w1)"
    using assms(1) by (simp add: openDbConnection_def openDatabaseAsync_def)
  show ?thesis
  proof (cases "logs w")
    case None
    then have "runDelete ?w1 ?c (userId session) (sessionCode session) = Inl NoSuchTable"
      using assms(2) by (simp add: runDelete_def statementError_def)
    then show ?thesis using o None assms
      by (simp add: deleteLogsForSession_def closeQuietly_fields)
  next
    case (Some rows)
    let ?w2 = "?w1\<lparr>logs := Some (filter (\<lambda>r. \<not> inSession (userId session) (sessionCode session) r) rows)\<rparr>"
    have d: "runDelete ?w1 ?c (userId session) (sessionCode session)
               = Inr (length (filter (inSession (userId session) (sessionCode session)) rows), ?w2)"
      using assms(2) Some by (simp add: runDelete_def statementError_def)
    show ?thesis
    proof (cases "loggers svc ?key")
      case None
      then show ?thesis using o d Some assms
        by (simp add: deleteLogsForSession_def closeQuietly_fields)
    next
      case r: (Some r)
      show ?thesis
      proof (cases "objects svc r")
        case None
        then show ?thesis using o d Some r assms
          by (simp add: deleteLogsForSession_def closeQuietly_fields Let_def)
      next
        case h: (Some h)
        obtain h1 w3 where c: "close h ?w2 = (h1, w3)" by (cases "close h ?w2") auto
        from close_preserves[OF c] show ?thesis using o d Some r h c assms
          by (simp add: deleteLogsForSession_def closeQuietly_fields Let_def)
      qed
    qed
  qed
qed

text \<open>
  A handle that is not initialized is never initialized by \<^verbatim>\<open>log\<close> or \<^verbatim>\<open>getLogs\<close>: both return
  at their first guard. Only \<^verbatim>\<open>createLogger\<close> of the service calls \<^verbatim>\<open>initialize\<close> again.
\<close>

lemma inactive_handle_is_ignored:
  assumes "\<not> isInitialized h"
  shows "log_msg h w msg dat now = (Ignored, h, w)" and "getLogs orderBy h w limit = ([], h, w)"
  using assms by (simp_all add: log_msg_def getLogs_def)

text \<open>
  The two places that clear \<^verbatim>\<open>db\<close> clear \<^verbatim>\<open>isInitialized\<close> as well, and \<^verbatim>\<open>initialize\<close> sets
  \<^verbatim>\<open>isInitialized\<close> only after it has set \<^verbatim>\<open>db\<close>: an initialized handle without a connection,
  the one state in which \<^verbatim>\<open>log\<close> re-opens, is never produced.
\<close>

lemma initialized_has_connection:
  assumes "isInitialized h \<longrightarrow> db h \<noteq> None"
  shows "isInitialized (fst (initialize h w)) \<longrightarrow> db (fst (initialize h w)) \<noteq> None"
    and "isInitialized (fst (snd (log_msg h w msg dat now))) \<longrightarrow> db (fst (snd (log_msg h w msg dat now))) \<noteq> None"
    and "isInitialized (fst (snd (getLogs orderBy h w limit))) \<longrightarrow> db (fst (snd (getLogs orderBy h w limit))) \<noteq> None"
    and "isInitialized (fst (close h w)) \<longrightarrow> db (fst (close h w)) \<noteq> None"
proof -
  show "isInitialized (fst (initialize h w)) \<longrightarrow> db (fst (initialize h w)) \<noteq> None"
    by (auto simp: initialize_def Let_def split: sum.splits prod.splits)
  show "isInitialized (fst (snd (log_msg h w msg dat now))) \<longrightarrow> db (fst (snd (log_msg h w msg dat now))) \<noteq> None"
    using assms by (auto simp: log_msg_def split: option.splits sum.splits prod.splits if_splits)
  show "isInitialized (fst (snd (getLogs orderBy h w limit))) \<longrightarrow> db (fst (snd (getLogs orderBy h w limit))) \<noteq> None"
    using assms by (auto simp: getLogs_def split: option.splits sum.splits prod.splits if_splits)
  show "isInitialized (fst (close h w)) \<longrightarrow> db (fst (close h w)) \<noteq> None"
    using assms by (auto simp: close_def split: option.splits sum.splits)
qed

text \<open>The key does not determine the pair: a hyphen can be moved from one part to the other.\<close>

lemma loggerKey_collision:
  "loggerKey (u @ ''-'' @ v) s = loggerKey u (v @ ''-'' @ s)"
  by (simp add: loggerKey_def)

subsection \<open>Queries\<close>

text \<open>
  C6 (amended). For every session identifier and limit, the session query
  \<^verbatim>\<open>getLogsForSession\<close> returns at most \<open>limit\<close> entries, every returned entry is a stored row of
  that \<open>(userId, sessionCode)\<close> pair, and the entries are ordered newest timestamp first; when
  the database is usable they are the first \<open>limit\<close> entries of a newest-first arrangement of
  all the rows of the session. The order among entries of equal timestamp is the engine's:
  the query does not order by \<^verbatim>\<open>id\<close>. The handle's own \<^verbatim>\<open>getLogs\<close> returns at most \<open>limit\<close> stored
  rows, newest timestamp first. This holds for every engine sort that meets
  \<open>sortsByTimestampDesc\<close>.
\<close>

theorem query_bounded_filtered_newest_first:
  assumes "sortsByTimestampDesc orderBy"
  shows "length (fst (getLogsForSession orderBy w session limit)) \<le> limit \<and>
         list_all (\<lambda>r. userId r = userId session \<and> sessionCode r = sessionCode session \<and>
                       r \<in> set (storedRows w))
                  (fst (getLogsForSession orderBy w session limit)) \<and>
         newestFirst (fst (getLogsForSession orderBy w session limit)) \<and>
         (canOpen w \<and> fault w = None \<longrightarrow>
            (\<exists>rest. mset (fst (getLogsForSession orderBy w session limit) @ rest)
                       = mset (filter (inSession (userId session) (sessionCode session)) (storedRows w)) \<and>
                    newestFirst (fst (getLogsForSession orderBy w session limit) @ rest) \<and>
                    (rest \<noteq> [] \<longrightarrow> length (fst (getLogsForSession orderBy w session limit)) = limit))) \<and>
         length (fst (getLogs orderBy h w limit)) \<le> limit \<and>
         set (fst (getLogs orderBy h w limit)) \<subseteq> set (storedRows w) \<and>
         newestFirst (fst (getLogs orderBy h w limit))"
proof -
  let ?m = "filter (inSession (userId session) (sessionCode session)) (storedRows w)"
  let ?q = "fst (getLogsForSession orderBy w session limit)"
  have q: "?q = [] \<or> ?q = take limit (orderBy ?m)"
    by (auto simp: getLogsForSession_result storedRows_def split: option.splits)
  have q_ok: "canOpen w \<and> fault w = None \<longrightarrow> ?q = take limit (orderBy ?m)"
    using orderBy_Nil[OF assms]
    by (auto simp: getLogsForSession_result storedRows_def split: option.splits)
  have len: "length ?q \<le> limit" using q by auto
  have "set (take limit (orderBy ?m)) \<subseteq> set ?m"
    using set_take_subset[of limit "orderBy ?m"] orderBy_props(2)[OF assms, of ?m] by simp
  then have "set ?q \<subseteq> set ?m" using q by auto
  then have mem: "list_all (\<lambda>r. userId r = userId session \<and> sessionCode r = sessionCode session \<and>
                       r \<in> set (storedRows w)) ?q"
    by (auto simp: list_all_iff inSession_def)
  have nf: "newestFirst ?q"
    using q orderBy_props(4)[OF assms, of ?m] by (auto simp: newestFirst_take) (simp add: newestFirst_def)
  have top: "canOpen w \<and> fault w = None \<longrightarrow>
            (\<exists>rest. mset (?q @ rest) = mset ?m \<and> newestFirst (?q @ rest) \<and>
                    (rest \<noteq> [] \<longrightarrow> length ?q = limit))"
  proof
    assume "canOpen w \<and> fault w = None"
    with q_ok have e: "?q = take limit (orderBy ?m)" by simp
    have "mset (?q @ drop limit (orderBy ?m)) = mset ?m"
      unfolding e using orderBy_props(1)[OF assms, of ?m] by simp
    moreover have "newestFirst (?q @ drop limit (orderBy ?m))"
      unfolding e using orderBy_props(4)[OF assms, of ?m] by simp
    moreover have "drop limit (orderBy ?m) \<noteq> [] \<longrightarrow> length ?q = limit"
      unfolding e by auto
    ultimately show "\<exists>rest. mset (?q @ rest) = mset ?m \<and> newestFirst (?q @ rest) \<and>
                    (rest \<noteq> [] \<longrightarrow> length ?q = limit)" by blast
  qed
  let ?g = "fst (getLogs orderBy h w limit)"
  have g: "?g = [] \<or> ?g = take limit (orderBy (storedRows w))" by (rule getLogs_result)
  have glen: "length ?g \<le> limit" using g by auto
  have "set (take limit (orderBy (storedRows w))) \<subseteq> set (storedRows w)"
    using set_take_subset[of limit "orderBy (storedRows w)"] orderBy_props(2)[OF assms, of "storedRows w"]
    by simp
  then have gset: "set ?g \<subseteq> set (storedRows w)" using g by auto
  have gnf: "newestFirst ?g"
    using g orderBy_props(4)[OF assms, of "storedRows w"]
    by (auto simp: newestFirst_take) (simp add: newestFirst_def)
  show ?thesis using len mem nf top glen gset gnf by blast
qed

theorem query_bounded_filtered_newest_first_witness:
  "sortsByTimestampDesc stableDesc \<and>
   fst (getLogsForSession stableDesc mixedDatabase sessionOne 1) = [rowA1] \<and>
   length (fst (getLogsForSession stableDesc mixedDatabase sessionOne 1)) \<le> 1 \<and>
   list_all (\<lambda>r. userId r = userId sessionOne \<and> sessionCode r = sessionCode sessionOne \<and>
                 r \<in> set (storedRows mixedDatabase))
            (fst (getLogsForSession stableDesc mixedDatabase sessionOne 1)) \<and>
   newestFirst (fst (getLogsForSession stableDesc mixedDatabase sessionOne 1)) \<and>
   length (fst (getLogs stableDesc activeHandle mixedDatabase 1)) \<le> 1 \<and>
   newestFirst (fst (getLogs stableDesc activeHandle mixedDatabase 1))"
proof -
  have e: "fst (getLogsForSession stableDesc mixedDatabase sessionOne 1) = [rowA1]"
    by (simp add: getLogsForSession_result mixedDatabase_def sessionOne_def inSession_def
        rowA1_def rowA2_def rowB_def stableDesc_def)
  show ?thesis
    using stableDesc_valid e
      query_bounded_filtered_newest_first[OF stableDesc_valid, of mixedDatabase sessionOne 1 activeHandle]
    by blast
qed

text \<open>
  The handle's \<^verbatim>\<open>getLogs\<close> has no \<^verbatim>\<open>WHERE\<close> clause: the handle of \<open>(u1, s1)\<close> is given the row of
  \<open>(u2, s2)\<close>. And two sorts that both order by timestamp descending return the two rows of
  equal timestamp in opposite orders of \<^verbatim>\<open>id\<close>.
\<close>

theorem handle_query_unfiltered_counterexample:
  "userId activeHandle = ''u1'' \<and> sessionCode activeHandle = ''s1'' \<and>
   userId rowB = ''u2'' \<and> sessionCode rowB = ''s2'' \<and>
   sortsByTimestampDesc stableDesc \<and> sortsByTimestampDesc (stableDesc \<circ> rev) \<and>
   getLogs stableDesc activeHandle mixedDatabase 100 = ([rowA1, rowB, rowA2], activeHandle, mixedDatabase) \<and>
   timestamp rowA1 = timestamp rowA2 \<and> entryId rowA1 < entryId rowA2 \<and>
   fst (getLogsForSession stableDesc mixedDatabase sessionOne 100) = [rowA1, rowA2] \<and>
   fst (getLogsForSession (stableDesc \<circ> rev) mixedDatabase sessionOne 100) = [rowA2, rowA1]"
proof -
  have g: "getLogs stableDesc activeHandle mixedDatabase 100 = ([rowA1, rowB, rowA2], activeHandle, mixedDatabase)"
    by (simp add: getLogs_def activeHandle_def mixedDatabase_def selectAll_def statementError_def
        stableDesc_def rowA1_def rowA2_def rowB_def)
  have q1: "fst (getLogsForSession stableDesc mixedDatabase sessionOne 100) = [rowA1, rowA2]"
    by (simp add: getLogsForSession_result mixedDatabase_def sessionOne_def inSession_def
        rowA1_def rowA2_def rowB_def stableDesc_def)
  have q2: "fst (getLogsForSession (stableDesc \<circ> rev) mixedDatabase sessionOne 100) = [rowA2, rowA1]"
    by (simp add: getLogsForSession_result mixedDatabase_def sessionOne_def inSession_def
        rowA1_def rowA2_def rowB_def stableDesc_def)
  show ?thesis using g q1 q2 stableDesc_valid stableDesc_rev_valid
    by (simp add: activeHandle_def rowA1_def rowA2_def rowB_def)
qed

subsection \<open>Lost connections\<close>

text \<open>
  C7. The claim asks that a handle that has marked itself inactive re-attempts its
  initialization on the next \<^verbatim>\<open>log\<close> or \<^verbatim>\<open>getLogs\<close> call, and the comment in \<^verbatim>\<open>log\<close> says so
  (\<^verbatim>\<open>We'll try to initialize on next log call\<close>). The code does not: a handle initialized by
  \<^verbatim>\<open>initialize\<close> loses its connection; the next \<^verbatim>\<open>log\<close> finds the connection closed, neither
  re-opens nor retries, and clears \<^verbatim>\<open>db\<close> and \<^verbatim>\<open>isInitialized\<close>; every later \<^verbatim>\<open>log\<close> and
  \<^verbatim>\<open>getLogs\<close> then returns at the first guard, leaving the handle and the database as they
  are, although the database can be opened and \<^verbatim>\<open>initialize\<close> would succeed.
\<close>

theorem inactive_handle_never_reinitializes:
  "initialize (newLogger ''u1'' ''s1'' ''appLogs.db'') freshDatabase = (activeHandle, openedDatabase) \<and>
   canOpen (loseConnection openedDatabase 0) \<and>
   log_msg activeHandle (loseConnection openedDatabase 0) ''tap'' ''{}'' ''2024-01-01T10:00:00.000Z''
     = (ConnectionClosed, inactiveHandle, loseConnection openedDatabase 0) \<and>
   log_msg inactiveHandle (loseConnection openedDatabase 0) ''tap'' ''{}'' ''2024-01-01T10:00:01.000Z''
     = (Ignored, inactiveHandle, loseConnection openedDatabase 0) \<and>
   getLogs stableDesc inactiveHandle (loseConnection openedDatabase 0) 100
     = ([], inactiveHandle, loseConnection openedDatabase 0) \<and>
   isInitialized (fst (initialize inactiveHandle (loseConnection openedDatabase 0)))"
proof -
  have "isInitialized (fst (initialize inactiveHandle (loseConnection openedDatabase 0)))"
    by (simp add: initialize_def openDatabaseAsync_def execCreateTable_def statementError_def
        loseConnection_def openedDatabase_def inactiveHandle_def)
  then show ?thesis
    by (simp add: initialize_handle log_msg_def getLogs_def loseConnection_def openedDatabase_def
        activeHandle_def inactiveHandle_def runInsert_def statementError_def)
qed

subsection \<open>Deleting a session\<close>

text \<open>
  C8. When the database can be opened and the engine raises no error other than the missing
  table, \<^verbatim>\<open>deleteLogsForSession\<close> reports success and removes exactly the rows of the given
  \<open>(userId, sessionCode)\<close>: the other rows stay, in their order; an absent table stays absent
  and the table is unchanged when the session has no rows. A second call for the same session
  succeeds too and changes neither the table nor the registry, and a query for the session
  after the delete returns no entry.
\<close>

theorem delete_session_removes_exactly:
  assumes "canOpen w" and "fault w = None" and "sortsByTimestampDesc orderBy"
    and "deleteLogsForSession svc w session = (ok, svc', w')"
  shows "ok \<and>
         storedRows w' = filter (\<lambda>r. \<not> inSession (userId session) (sessionCode session) r) (storedRows w) \<and>
         (logs w' = None \<longleftrightarrow> logs w = None) \<and>
         (filter (inSession (userId session) (sessionCode session)) (storedRows w) = [] \<longrightarrow> logs w' = logs w) \<and>
         fst (deleteLogsForSession svc' w' session) \<and>
         fst (snd (deleteLogsForSession svc' w' session)) = svc' \<and>
         logs (snd (snd (deleteLogsForSession svc' w' session))) = logs w' \<and>
         fst (getLogsForSession orderBy w' session limit) = []"
proof -
  let ?in = "inSession (userId session) (sessionCode session)"
  let ?key = "loggerKey (userId session) (sessionCode session)"
  from deleteLogsForSession_ok[OF assms(1,2), of svc session] assms(4)
  have ok: "ok" and l: "logs w' = map_option (filter (\<lambda>r. \<not> ?in r)) (logs w)"
    and f: "canOpen w'" "fault w' = None"
    and s: "logs w = None \<longrightarrow> svc' = svc" "logs w \<noteq> None \<longrightarrow> loggers svc' ?key = None"
    by auto
  have rows: "storedRows w' = filter (\<lambda>r. \<not> ?in r) (storedRows w)"
    using l by (cases "logs w") (simp_all add: storedRows_def)
  have none: "logs w' = None \<longleftrightarrow> logs w = None" using l by simp
  have noop: "filter ?in (storedRows w) = [] \<longrightarrow> logs w' = logs w"
  proof
    assume "filter ?in (storedRows w) = []"
    then have "filter (\<lambda>r. \<not> ?in r) (storedRows w) = storedRows w"
      by (simp add: filter_empty_conv)
    then show "logs w' = logs w" using l by (cases "logs w") (simp_all add: storedRows_def)
  qed
  from deleteLogsForSession_ok[OF f, of svc' session]
  obtain svc2 w2 where d2: "deleteLogsForSession svc' w' session = (True, svc2, w2)"
    and l2: "logs w2 = map_option (filter (\<lambda>r. \<not> ?in r)) (logs w')"
    and s2: "logs w' = None \<longrightarrow> svc2 = svc'" "loggers svc' ?key = None \<longrightarrow> svc2 = svc'"
    by (elim exE conjE) (rule that)
  have same: "svc2 = svc'" using s s2 none by (cases "logs w") auto
  have "filter (\<lambda>r. \<not> ?in r) (filter (\<lambda>r. \<not> ?in r) xs) = filter (\<lambda>r. \<not> ?in r) xs" for xs
    by simp
  then have l2': "logs w2 = logs w'" using l l2 by (cases "logs w") simp_all
  have "filter ?in (filter (\<lambda>r. \<not> ?in r) xs) = []" for xs by (simp add: filter_empty_conv)
  then have q: "fst (getLogsForSession orderBy w' session limit) = []"
    using l f orderBy_Nil[OF assms(3)]
    by (cases "logs w") (simp_all add: getLogsForSession_result)
  show ?thesis using ok rows none noop d2 same l2' q by simp
qed

theorem delete_session_removes_exactly_witness:
  "canOpen mixedDatabase \<and> fault mixedDatabase = None \<and> sortsByTimestampDesc stableDesc \<and>
   deleteLogsForSession emptyService mixedDatabase sessionOne = (True, emptyService, afterDelete) \<and>
   storedRows afterDelete = [rowB] \<and>
   fst (deleteLogsForSession emptyService afterDelete sessionOne) \<and>
   logs (snd (snd (deleteLogsForSession emptyService afterDelete sessionOne))) = logs afterDelete \<and>
   fst (getLogsForSession stableDesc afterDelete sessionOne 500) = []"
proof -
  have c: "canOpen mixedDatabase" and f: "fault mixedDatabase = None"
    by (simp_all add: mixedDatabase_def)
  have d: "deleteLogsForSession emptyService mixedDatabase sessionOne = (True, emptyService, afterDelete)"
    by (simp add: deleteLogsForSession_def openDbConnection_def openDatabaseAsync_def runDelete_def
        statementError_def closeQuietly_def closeAsync_def mixedDatabase_def afterDelete_def
        emptyService_def sessionOne_def loggerKey_def inSession_def rowA1_def rowA2_def rowB_def)
  have r: "storedRows afterDelete = [rowB]" by (simp add: storedRows_def afterDelete_def)
  show ?thesis
    using c f d r stableDesc_valid
      delete_session_removes_exactly[OF c f stableDesc_valid d, of 500]
    by simp
qed

subsection \<open>The registry key\<close>

text \<open>
  C9. The claim asks that distinct \<open>(userId, sessionCode)\<close> pairs have distinct registry
  entries. The key is \<^verbatim>\<open>${userId}-${sessionCode}\<close>: the distinct sessions \<open>(a-b, c)\<close> and
  \<open>(a, b-c)\<close> have the key \<^verbatim>\<open>a-b-c\<close>. After \<^verbatim>\<open>createLogger\<close> for the first, \<^verbatim>\<open>createLogger\<close> for the
  second returns the handle of the first and registers nothing, and what is logged through
  it is stored under \<open>(a-b, c)\<close>.
\<close>

theorem key_collision_shares_handle:
  "sessionAB_C \<noteq> sessionA_BC \<and>
   createLogger emptyService freshDatabase sessionAB_C = (Some 0, registeredAB_C, openedDatabase) \<and>
   createLogger registeredAB_C openedDatabase sessionA_BC = (Some 0, registeredAB_C, openedDatabase) \<and>
   objects registeredAB_C 0 = Some handleAB_C \<and>
   userId handleAB_C = ''a-b'' \<and> sessionCode handleAB_C = ''c'' \<and>
   storedRows (snd (snd (log_msg handleAB_C openedDatabase ''session_start'' ''{}'' ''2024-01-01T10:00:00.000Z'')))
     = [\<lparr>userId = ''a-b'', sessionCode = ''c'', entryId = 1,
         timestamp = ''2024-01-01T10:00:00.000Z'', entryMessage = ''session_start'', data = ''{}''\<rparr>]"
proof -
  have i: "initialize (newLogger ''a-b'' ''c'' ''appLogs.db'') freshDatabase = (handleAB_C, openedDatabase)"
    by (simp add: initialize_def newLogger_def freshDatabase_def handleAB_C_def openedDatabase_def
        openDatabaseAsync_def execCreateTable_def statementError_def storedRows_def endsWith_def)
  have k1: "loggerKey ''a-b'' ''c'' = ''a-b-c''" and k2: "loggerKey ''a'' ''b-c'' = ''a-b-c''"
    by (simp_all add: loggerKey_def)
  have c1: "createLogger emptyService freshDatabase sessionAB_C = (Some 0, registeredAB_C, openedDatabase)"
    using i by (simp add: createLogger_def sessionAB_C_def k1 emptyService_def registeredAB_C_def
        handleAB_C_def Let_def)
  have c2: "createLogger registeredAB_C openedDatabase sessionA_BC = (Some 0, registeredAB_C, openedDatabase)"
    by (simp add: createLogger_def sessionA_BC_def k2 registeredAB_C_def handleAB_C_def Let_def)
  have l: "storedRows (snd (snd (log_msg handleAB_C openedDatabase ''session_start'' ''{}'' ''2024-01-01T10:00:00.000Z'')))
     = [\<lparr>userId = ''a-b'', sessionCode = ''c'', entryId = 1,
         timestamp = ''2024-01-01T10:00:00.000Z'', entryMessage = ''session_start'', data = ''{}''\<rparr>]"
    by (simp add: log_msg_def handleAB_C_def openedDatabase_def runInsert_def statementError_def storedRows_def)
  show ?thesis using c1 c2 l
    by (simp add: sessionAB_C_def sessionA_BC_def registeredAB_C_def handleAB_C_def)
qed

subsection \<open>Rows written by a handle\<close>



end
